theory Spec2Isabelle
  imports Complex_Main
begin

section \<open>Le Pire Cube: the simulation core of cube.js\<close>

text \<open>
  JavaScript numbers are modelled as real numbers: every arithmetic operation of the source is
  the exact operation on \<^typ>\<open>real\<close>. Grid coordinates, the viewport bounds and the score, which
  the source only ever fills with integral values, are \<^typ>\<open>int\<close>. The two exceptions thrown by
  the core are values of the type \<open>error\<close>.
\<close>

subsection \<open>Constants\<close>

definition PI :: real where
  "PI = 3.141592653589793"

definition SQRT2 :: real where
  "SQRT2 = 1.414213562373095"

definition EPSILON :: real where
  "EPSILON = 0.000001"

subsection \<open>class Vect\<close>

datatype error = ZeroVector | ShortPath

datatype Vect = Vect (vx: real) (vy: real) (vz: real)

definition dot :: "Vect \<Rightarrow> Vect \<Rightarrow> real" where
  "dot u v = vx u * vx v + vy u * vy v + vz u * vz v"

definition lengthSquared :: "Vect \<Rightarrow> real" where
  "lengthSquared v = dot v v"

definition lengthV :: "Vect \<Rightarrow> real" where
  "lengthV v = sqrt (lengthSquared v)"

definition add :: "Vect \<Rightarrow> Vect \<Rightarrow> Vect" where
  "add u v = Vect (vx u + vx v) (vy u + vy v) (vz u + vz v)"

definition multiply :: "Vect \<Rightarrow> real \<Rightarrow> Vect" where
  "multiply v lambda = Vect (vx v * lambda) (vy v * lambda) (vz v * lambda)"

definition substract :: "Vect \<Rightarrow> Vect \<Rightarrow> Vect" where
  "substract u v = add u (multiply v (-1))"

definition cross :: "Vect \<Rightarrow> Vect \<Rightarrow> Vect" where
  "cross u v = Vect (vy u * vz v - vz u * vy v)
                    (vz u * vx v - vx u * vz v)
                    (vx u * vy v - vy u * vx v)"

definition normalizeV :: "Vect \<Rightarrow> error + Vect" where
  "normalizeV v = (let l = lengthV v in
     if l = 0 then Inl ZeroVector else Inr (multiply v (1 / l)))"

definition rotateZ :: "Vect \<Rightarrow> real \<Rightarrow> Vect" where
  "rotateZ v theta = Vect (vx v * cos theta - vy v * sin theta)
                          (vy v * cos theta + vx v * sin theta)
                          (vz v)"

definition cloneX :: "Vect \<Rightarrow> Vect" where
  "cloneX v = Vect (vx v) 0 0"

definition cloneY :: "Vect \<Rightarrow> Vect" where
  "cloneY v = Vect 0 (vy v) 0"

definition cloneXY :: "Vect \<Rightarrow> Vect" where
  "cloneXY v = Vect (vx v) (vy v) 0"

definition ZERO :: Vect where
  "ZERO = Vect 0 0 0"

definition ONE :: Vect where
  "ONE = Vect 1 1 1"

subsection \<open>class Path\<close>

text \<open>
  A path keeps its vertices and the unit normal computed from the first three of them. The
  constructor throws for fewer than three vertices, and \<open>normalize\<close> throws inside it when the
  first three vertices give a zero cross product.
\<close>

record Path =
  vertices :: "Vect list"
  normal :: Vect

fun newPath :: "Vect list \<Rightarrow> error + Path" where
  "newPath (v0 # v1 # v2 # rest) =
     (case normalizeV (cross (substract v1 v0) (substract v2 v1)) of
        Inl e \<Rightarrow> Inl e
      | Inr n \<Rightarrow> Inr \<lparr>vertices = [v0, v1, v2] @ rest, normal = n\<rparr>)"
| "newPath vects = Inl ShortPath"

definition translate :: "Path \<Rightarrow> Vect \<Rightarrow> error + Path" where
  "translate p v = newPath (map (\<lambda>u. add u v) (vertices p))"

definition Path_rotateZ :: "Path \<Rightarrow> real \<Rightarrow> Vect \<Rightarrow> error + Path" where
  "Path_rotateZ p theta origin =
     (case translate p (multiply origin (-1)) of
        Inl e \<Rightarrow> Inl e
      | Inr p1 \<Rightarrow>
          (case newPath (map (\<lambda>u. rotateZ u theta) (vertices p1)) of
             Inl e \<Rightarrow> Inl e
           | Inr p2 \<Rightarrow> translate p2 origin))"

subsection \<open>class Collisions\<close>

text \<open>
  The loop of \<open>vectorSeesAllOthersOnTheSameHalfPlane\<close>, with its running \<open>min\<close> and \<open>max\<close> and
  its early \<open>return false\<close>.
\<close>

fun seesLoop :: "Vect \<Rightarrow> Vect \<Rightarrow> Vect list \<Rightarrow> real \<Rightarrow> real \<Rightarrow> bool" where
  "seesLoop n u [] mn mx = True"
| "seesLoop n u (w # ws) mn mx =
     (let d = dot n (cross u w);
          mn' = (if d < mn then d else mn);
          mx' = (if d < mn then mx else if d > mx then d else mx)
      in if mx' \<noteq> 0 \<and> mn' \<noteq> 0 then False else seesLoop n u ws mn' mx')"

definition vectorSeesAllOthersOnTheSameHalfPlane :: "Vect \<Rightarrow> Vect list \<Rightarrow> Vect \<Rightarrow> bool" where
  "vectorSeesAllOthersOnTheSameHalfPlane n vects u = seesLoop n u vects 0 0"

definition isPointInPath :: "Vect \<Rightarrow> Path \<Rightarrow> error + bool" where
  "isPointInPath v path =
     (case translate path (multiply v (-1)) of
        Inl e \<Rightarrow> Inl e
      | Inr moved \<Rightarrow>
          Inr (\<not> list_ex (vectorSeesAllOthersOnTheSameHalfPlane (normal path) (vertices moved))
                         (vertices moved)))"

subsection \<open>class GameSettings\<close>

text \<open>The fields of the settings that the simulation reads, with the values of the constructor.\<close>

record GameSettings =
  playerSize :: real
  playerInitialPosition :: Vect
  playerAcceleration :: Vect
  playerJumpVelocity :: Vect
  gameInitialPosition :: real
  gameInitialVelocity :: real
  gameAcceleration :: real
  gameTimeBetweenPowerUps :: real
  gameDeathZone :: real
  gameWalkZone :: real
  gameWidth :: real
  rendererTilesOnScreen :: int
  rendererFallingAnimationDuration :: real

definition newGameSettings :: GameSettings where
  "newGameSettings = \<lparr>
     playerSize = 0.5,
     playerInitialPosition = Vect 1.5 1.5 0,
     playerAcceleration = Vect 0 0 (-30),
     playerJumpVelocity = Vect 0 0 10,
     gameInitialPosition = -5 * SQRT2,
     gameInitialVelocity = 1.0 * SQRT2,
     gameAcceleration = 0.1 * SQRT2,
     gameTimeBetweenPowerUps = 10,
     gameDeathZone = 4,
     gameWalkZone = 200,
     gameWidth = 6,
     rendererTilesOnScreen = 15,
     rendererFallingAnimationDuration = 0.5 \<rparr>"

subsection \<open>class Player\<close>

text \<open>The field \<open>s\<close> of the source is \<open>sVect\<close> here; the method \<open>jump\<close> is \<open>Player_jump\<close>.\<close>

record Player =
  settings :: GameSettings
  side :: real
  sVect :: Vect
  position :: Vect
  velocity :: Vect
  acceleration :: Vect
  orientationAngularVelocity :: real
  rotationAngularVelocity :: real
  inAirVelocity :: real
  level :: int
  levelSince :: real
  jumpVelocity :: Vect
  orientation :: real
  rotation :: real
  inRotation :: bool
  inRotationSince :: real
  inAir :: bool
  inAirSince :: real

definition updateStats :: "Player \<Rightarrow> Player" where
  "updateStats p =
     (let v = gameTimeBetweenPowerUps (settings p) * gameAcceleration (settings p)
                * (of_int (level p) + 2) + gameInitialVelocity (settings p)
      in p\<lparr>inAirVelocity := v,
           rotationAngularVelocity := v / side p * PI / 2,
           orientationAngularVelocity := v / side p * PI / 2\<rparr>)"

definition newPlayer :: "GameSettings \<Rightarrow> Player" where
  "newPlayer st = updateStats \<lparr>
     settings = st,
     side = playerSize st,
     sVect = multiply ONE (playerSize st),
     position = playerInitialPosition st,
     velocity = ZERO,
     acceleration = playerAcceleration st,
     orientationAngularVelocity = 0,
     rotationAngularVelocity = 0,
     inAirVelocity = 0,
     level = 0,
     levelSince = 0,
     jumpVelocity = playerJumpVelocity st,
     orientation = 0,
     rotation = 0,
     inRotation = False,
     inRotationSince = 0,
     inAir = False,
     inAirSince = 0 \<rparr>"

definition setInAir :: "Player \<Rightarrow> real \<Rightarrow> Player" where
  "setInAir p t = p\<lparr>inAir := True, inAirSince := t\<rparr>"

definition Player_jump :: "Player \<Rightarrow> real \<Rightarrow> Player" where
  "Player_jump p t = (setInAir p t)\<lparr>velocity := jumpVelocity p\<rparr>"

definition land :: "Player \<Rightarrow> Player" where
  "land p = p\<lparr>inAir := False, velocity := ZERO\<rparr>"

definition resetAltitude :: "Player \<Rightarrow> Player" where
  "resetAltitude p = p\<lparr>position := cloneXY (position p)\<rparr>"

definition updateAltitude :: "Player \<Rightarrow> real \<Rightarrow> Player" where
  "updateAltitude p t =
     (let airTime = t - inAirSince p
      in p\<lparr>position := Vect (vx (position p)) (vy (position p))
             (airTime * airTime * vz (acceleration p) / 2 + airTime * vz (velocity p))\<rparr>)"

definition flyTowards :: "Player \<Rightarrow> Vect \<Rightarrow> real \<Rightarrow> Player" where
  "flyTowards p dir dt = p\<lparr>position := add (position p) (multiply dir (inAirVelocity p * dt))\<rparr>"

definition setOrientation :: "Player \<Rightarrow> real \<Rightarrow> Player" where
  "setOrientation p theta = p\<lparr>orientation := theta\<rparr>"

definition beginRotation :: "Player \<Rightarrow> real \<Rightarrow> Player" where
  "beginRotation p t = p\<lparr>inRotation := True, inRotationSince := t, rotation := 0\<rparr>"

definition updateRotation :: "Player \<Rightarrow> real \<Rightarrow> Player" where
  "updateRotation p t =
     p\<lparr>inRotation := True, rotation := (t - inRotationSince p) * rotationAngularVelocity p\<rparr>"

definition endRotation :: "Player \<Rightarrow> Player" where
  "endRotation p =
     p\<lparr>inRotation := False, rotation := 0,
       position := add (position p) (rotateZ (Vect (side p) 0 0) (orientation p))\<rparr>"

definition eatPowerUp :: "Player \<Rightarrow> real \<Rightarrow> Player" where
  "eatPowerUp p t = updateStats (p\<lparr>level := level p + 1, levelSince := t\<rparr>)"

definition getCollisionPath :: "Player \<Rightarrow> error + Path" where
  "getCollisionPath p =
     (case (if inRotation p
            then newPath
              [cloneX (sVect p),
               add (multiply (cloneX (sVect p)) (SQRT2 / 2)) (multiply (cloneY (sVect p)) (1 / 2)),
               cloneXY (sVect p),
               add (multiply (cloneX (sVect p)) SQRT2) (multiply (cloneY (sVect p)) (1 / 2))]
            else newPath [ZERO, cloneY (sVect p), cloneXY (sVect p), cloneX (sVect p)]) of
        Inl e \<Rightarrow> Inl e
      | Inr p0 \<Rightarrow>
          (case Path_rotateZ p0 (orientation p) (multiply (sVect p) (1 / 2)) of
             Inl e \<Rightarrow> Inl e
           | Inr p1 \<Rightarrow>
               translate p1 (substract (position p) (multiply (cloneXY (sVect p)) (1 / 2)))))"

subsection \<open>Cells: GameCell, Tile, PowerUpTile\<close>

text \<open>
  The three classes of cell are one datatype. \<open>Tile\<close> extends \<open>GameCell\<close> and \<open>PowerUpTile\<close>
  extends \<open>Tile\<close>, so \<open>instanceof Tile\<close> holds of the last two constructors. A power-up carries
  \<open>consumed\<close> and \<open>consumedSince\<close>.
\<close>

datatype GameCell =
    GameCell int int
  | Tile int int
  | PowerUpTile int int bool real

fun instanceofTile :: "GameCell \<Rightarrow> bool" where
  "instanceofTile (GameCell cx cy) = False"
| "instanceofTile (Tile cx cy) = True"
| "instanceofTile (PowerUpTile cx cy consumed since) = True"

fun instanceofPowerUpTile :: "GameCell \<Rightarrow> bool" where
  "instanceofPowerUpTile (PowerUpTile cx cy consumed since) = True"
| "instanceofPowerUpTile c = False"

fun cellX :: "GameCell \<Rightarrow> int" where
  "cellX (GameCell cx cy) = cx"
| "cellX (Tile cx cy) = cx"
| "cellX (PowerUpTile cx cy consumed since) = cx"

fun cellY :: "GameCell \<Rightarrow> int" where
  "cellY (GameCell cx cy) = cy"
| "cellY (Tile cx cy) = cy"
| "cellY (PowerUpTile cx cy consumed since) = cy"

subsection \<open>class WorldGenerator\<close>

text \<open>The seed, \<open>Math.random()\<close> in the constructor, is a parameter.\<close>

record WorldGenerator =
  generatorSettings :: GameSettings
  seed :: real

definition isTile :: "WorldGenerator \<Rightarrow> real \<Rightarrow> real \<Rightarrow> bool" where
  "isTile gen x y =
     (if \<bar>x - y\<bar> \<ge> gameWidth (generatorSettings gen) then False
      else
        ((1 + seed gen) * cos (7 * x) + sin (6 * x - y) + cos (seed gen * 19 * y)
           + (2 - seed gen) * sin (2 * x + 5 * y)) / 5
          - (y - x)\<^sup>2 / 25
          + exp (- (x + y) / gameWalkZone (generatorSettings gen)) \<ge> 0)"

definition powerUpIndex :: "GameSettings \<Rightarrow> real \<Rightarrow> real" where
  \<comment> \<open>the local function \<open>n\<close> of \<open>isPowerUp\<close>\<close>
  "powerUpIndex st d =
     (- gameInitialVelocity st
        + sqrt (gameInitialVelocity st * gameInitialVelocity st + 2 * gameAcceleration st * d))
     / (gameAcceleration st * gameTimeBetweenPowerUps st)"

definition isPowerUp :: "WorldGenerator \<Rightarrow> real \<Rightarrow> real \<Rightarrow> bool" where
  "isPowerUp gen x y =
     (x = y \<and> x \<ge> 1 \<and>
      \<lfloor>powerUpIndex (generatorSettings gen) (x * SQRT2)\<rfloor>
        > \<lfloor>powerUpIndex (generatorSettings gen) ((x - 1) * SQRT2)\<rfloor>)"

subsection \<open>class Game: state, constructor and generateWorld\<close>

text \<open>
  \<open>tiles\<close> is the nested object of the source, indexed by row \<open>y\<close> first and column \<open>x\<close> second.
  A cell object is referred to by its key \<open>(x, y)\<close>. The field \<open>t\<close> of the source is \<open>gameTime\<close>,
  the field \<open>settings\<close> is \<open>gameSettings\<close>. The live \<open>inputs\<close> object is a field that the caller
  overwrites between two calls of \<open>update\<close>.
\<close>

record GameInputs =
  direction :: Vect
  jump :: bool

type_synonym World = "int \<Rightarrow> (int \<Rightarrow> GameCell option) option"

record Game =
  gameSettings :: GameSettings
  gameTime :: real
  score :: int
  gameOver :: bool
  gameOverAt :: real
  tiles :: World
  generator :: WorldGenerator
  player :: Player
  viewportStart :: int
  viewportEnd :: int
  cameraPosition :: real
  inputs :: GameInputs
  jumpQueued :: bool

definition newGameInputs :: GameInputs where
  "newGameInputs = \<lparr>direction = ZERO, jump = False\<rparr>"

definition newCell :: "WorldGenerator \<Rightarrow> int \<Rightarrow> int \<Rightarrow> GameCell" where
  "newCell gen x y =
     (if isPowerUp gen (of_int x) (of_int y) then PowerUpTile x y False 0
      else if isTile gen (of_int x) (of_int y) then Tile x y
      else GameCell x y)"

definition generateRow ::
  "WorldGenerator \<Rightarrow> int \<Rightarrow> int \<Rightarrow> int \<Rightarrow> int \<Rightarrow> (int \<Rightarrow> GameCell option) \<Rightarrow> (int \<Rightarrow> GameCell option)" where
  \<comment> \<open>the inner loop, over \<open>x\<close>, for the row \<open>y\<close>; \<open>vEnd\<close> is \<open>this.viewportEnd\<close>\<close>
  "generateRow gen vEnd start end y row =
     fold (\<lambda>x r. if (x < vEnd \<and> y < vEnd) \<or> r x \<noteq> None then r else r(x \<mapsto> newCell gen x y))
          [start..end] row"

definition generateRows :: "WorldGenerator \<Rightarrow> int \<Rightarrow> int \<Rightarrow> int \<Rightarrow> World \<Rightarrow> World" where
  \<comment> \<open>the outer loop, over \<open>y\<close>\<close>
  "generateRows gen vEnd start end ts =
     fold (\<lambda>y w. w(y \<mapsto> generateRow gen vEnd start end y
                          (case w y of None \<Rightarrow> Map.empty | Some row \<Rightarrow> row)))
          [start..end] ts"

definition deleteRows :: "int \<Rightarrow> int \<Rightarrow> World \<Rightarrow> World" where
  \<comment> \<open>\<open>for (let i = this.viewportStart; i < start; i++) delete this.tiles[i]\<close>\<close>
  "deleteRows vStart start ts = fold (\<lambda>i w. w(i := None)) [vStart..start - 1] ts"

definition generateWorld :: "Game \<Rightarrow> int \<Rightarrow> int \<Rightarrow> Game" where
  "generateWorld g start0 end =
     (let start = max 0 start0;
          ts1 = (if start > viewportStart g then deleteRows (viewportStart g) start (tiles g)
                 else tiles g);
          ts2 = (if end > viewportEnd g then generateRows (generator g) (viewportEnd g) start end ts1
                 else ts1)
      in g\<lparr>tiles := ts2, viewportStart := start, viewportEnd := end\<rparr>)"

definition newGame :: "GameSettings \<Rightarrow> GameInputs \<Rightarrow> real \<Rightarrow> Game" where
  "newGame st inp sd =
     (generateWorld \<lparr>
        gameSettings = st,
        gameTime = 0,
        score = 0,
        gameOver = False,
        gameOverAt = 0,
        tiles = (Map.empty(1 \<mapsto> Map.empty(1 \<mapsto> Tile 1 1))),
        generator = \<lparr>generatorSettings = st, seed = sd\<rparr>,
        player = newPlayer st,
        viewportStart = 0,
        viewportEnd = 0,
        cameraPosition = gameInitialPosition st,
        inputs = inp,
        jumpQueued = False \<rparr> 0 (rendererTilesOnScreen st))
     \<lparr>inputs := inp, jumpQueued := False\<rparr>"

subsection \<open>Game.playerIsOnTheseTiles\<close>

definition lookupCell :: "World \<Rightarrow> int \<Rightarrow> int \<Rightarrow> GameCell option" where
  "lookupCell ts x y = (case ts y of None \<Rightarrow> None | Some row \<Rightarrow> row x)"

definition hasTile :: "World \<Rightarrow> int \<Rightarrow> int \<Rightarrow> bool" where
  \<comment> \<open>\<open>y in this.tiles && x in this.tiles[y] && this.tiles[y][x] instanceof Tile\<close>\<close>
  "hasTile ts x y = (case lookupCell ts x y of None \<Rightarrow> False | Some c \<Rightarrow> instanceofTile c)"

definition vertexStep ::
  "World \<Rightarrow> Vect \<Rightarrow> int \<times> int \<times> int \<times> int \<times> (int \<times> int) list
     \<Rightarrow> int \<times> int \<times> int \<times> int \<times> (int \<times> int) list" where
  "vertexStep ts vertex st =
     (case st of (left, right, bottom, topmost, theseTiles) \<Rightarrow>
        (let x = \<lfloor>vx vertex\<rfloor>; y = \<lfloor>vy vertex\<rfloor>
         in (min left x, max right x, min bottom y, max topmost y,
             if hasTile ts x y \<and> (x, y) \<notin> set theseTiles then theseTiles @ [(x, y)]
             else theseTiles)))"

definition closestCorner :: "Vect \<Rightarrow> int \<Rightarrow> int \<Rightarrow> Vect" where
  \<comment> \<open>the \<open>reduce\<close> over the four corners of the cell\<close>
  "closestCorner pos x y =
     foldl (\<lambda>u v. if lengthSquared (substract pos u) < lengthSquared (substract pos v) then u else v)
       (Vect (of_int x) (of_int y) 0)
       [Vect (of_int x + 1) (of_int y) 0, Vect (of_int x) (of_int y + 1) 0,
        Vect (of_int x + 1) (of_int y + 1) 0]"

fun cornerLoop ::
  "World \<Rightarrow> Vect \<Rightarrow> Path \<Rightarrow> (int \<times> int) list \<Rightarrow> (int \<times> int) list \<Rightarrow> error + (int \<times> int) list" where
  "cornerLoop ts pos path [] theseTiles = Inr theseTiles"
| "cornerLoop ts pos path (xy # rest) theseTiles =
     (if hasTile ts (fst xy) (snd xy) \<and> xy \<notin> set theseTiles
      then (case isPointInPath (closestCorner pos (fst xy) (snd xy)) path of
              Inl e \<Rightarrow> Inl e
            | Inr inside \<Rightarrow>
                cornerLoop ts pos path rest (if inside then theseTiles @ [xy] else theseTiles))
      else cornerLoop ts pos path rest theseTiles)"

definition playerIsOnTheseTiles :: "Game \<Rightarrow> error + (int \<times> int) list" where
  "playerIsOnTheseTiles g =
     (case getCollisionPath (player g) of
        Inl e \<Rightarrow> Inl e
      | Inr playerPath \<Rightarrow>
          (let left0 = \<lfloor>vx (hd (vertices playerPath))\<rfloor>;
               bottom0 = \<lfloor>vy (hd (vertices playerPath))\<rfloor>
           in case fold (vertexStep (tiles g)) (vertices playerPath)
                     (left0, left0, bottom0, bottom0, []) of
                (left, right, bottom, topmost, theseTiles) \<Rightarrow>
                  cornerLoop (tiles g) (position (player g)) playerPath
                    (concat (map (\<lambda>y. map (\<lambda>x. (x, y)) [left..right]) [bottom..topmost]))
                    theseTiles))"

subsection \<open>Game.update\<close>

text \<open>
  \<open>Math.atan2\<close>, the remainder operator \<open>%\<close> on numbers (the sign of the result is the sign of
  the dividend) and \<open>Math.min\<close> over a non-empty array.
\<close>

definition atan2 :: "real \<Rightarrow> real \<Rightarrow> real" where
  "atan2 y x =
     (if x > 0 then arctan (y / x)
      else if x < 0 \<and> y \<ge> 0 then arctan (y / x) + pi
      else if x < 0 then arctan (y / x) - pi
      else if y > 0 then pi / 2
      else if y < 0 then - pi / 2
      else 0)"

definition jsRem :: "real \<Rightarrow> real \<Rightarrow> real" where
  "jsRem a b = a - b * of_int (if a / b \<ge> 0 then \<lfloor>a / b\<rfloor> else \<lceil>a / b\<rceil>)"

definition minimum :: "real list \<Rightarrow> real" where
  "minimum xs = foldl min (hd xs) (tl xs)"

text \<open>The candidate events of one call: the local variables of the first part of \<open>update\<close>.\<close>

record Events =
  dts :: "real list"
  dtRotation :: real
  dtFalling :: real
  dtOrientation :: real
  orientationClockwise :: bool
  angle :: real

definition nextEvents :: "Game \<Rightarrow> Vect \<Rightarrow> real \<Rightarrow> Events" where
  "nextEvents g dir elapsedTime =
     (let p = player g;
          dtRot = (if inRotation p then (PI / 2 - rotation p) / rotationAngularVelocity p else 0);
          dts1 = (if inRotation p then [elapsedTime, dtRot] else [elapsedTime]);
          dtFall = (if inAir p
                    then -2 * vz (velocity p) / vz (acceleration p) - (gameTime g - inAirSince p)
                    else 0);
          dts2 = (if inAir p \<and> dtFall > EPSILON then dts1 @ [dtFall] else dts1);
          ang = (if lengthSquared dir > 0 then atan2 (vy dir) (vx dir) else 0);
          misaligned = (lengthSquared dir > 0 \<and> \<not> inRotation p
                        \<and> \<bar>jsRem (ang - orientation p) (PI / 2)\<bar> > EPSILON);
          diff = jsRem \<bar>ang - orientation p\<bar> (PI / 2);
          dtClockwise = diff / orientationAngularVelocity p;
          dtCounterclockwise = (PI / 2 - diff) / orientationAngularVelocity p;
          clockwise1 = (misaligned \<and> ang < orientation p);
          dtOri = (if misaligned
                   then (if dtCounterclockwise < dtClockwise then dtCounterclockwise
                         else dtClockwise)
                   else 0);
          clockwise2 = (if misaligned \<and> dtCounterclockwise < dtClockwise then \<not> clockwise1
                        else clockwise1);
          dts3 = (if misaligned then dts2 @ [dtOri] else dts2)
      in \<lparr>dts = dts3, dtRotation = dtRot, dtFalling = dtFall, dtOrientation = dtOri,
          orientationClockwise = clockwise2, angle = ang\<rparr>)"

definition finishRotation :: "Game \<Rightarrow> Events \<Rightarrow> real \<Rightarrow> Game" where
  "finishRotation g ev dt =
     (if dt = dtRotation ev then g\<lparr>player := endRotation (player g)\<rparr>
      else if inRotation (player g) then g\<lparr>player := updateRotation (player g) (gameTime g)\<rparr>
      else g)"

definition reachGround :: "Game \<Rightarrow> Events \<Rightarrow> real \<Rightarrow> Game" where
  "reachGround g ev dt =
     (if dt = dtFalling ev then g\<lparr>player := resetAltitude (player g)\<rparr>
      else if inAir (player g) then g\<lparr>player := updateAltitude (player g) (gameTime g)\<rparr>
      else g)"

definition reachOrientation :: "Game \<Rightarrow> Events \<Rightarrow> real \<Rightarrow> Game" where
  "reachOrientation g ev dt =
     (if dt = dtOrientation ev then g\<lparr>player := setOrientation (player g) (angle ev)\<rparr> else g)"

definition setCell :: "World \<Rightarrow> int \<Rightarrow> int \<Rightarrow> GameCell \<Rightarrow> World" where
  \<comment> \<open>a write to a field of the cell object stored at \<open>tiles[y][x]\<close>\<close>
  "setCell ts x y c = (case ts y of None \<Rightarrow> ts | Some row \<Rightarrow> ts(y \<mapsto> row(x \<mapsto> c)))"

definition consumeTile :: "int \<times> int \<Rightarrow> Game \<Rightarrow> Game" where
  \<comment> \<open>the body of the loop over the tiles the player is on\<close>
  "consumeTile xy g =
     (case lookupCell (tiles g) (fst xy) (snd xy) of
        Some (PowerUpTile cx cy consumed since) \<Rightarrow>
          if \<not> consumed
          then g\<lparr>player := eatPowerUp (player g) (gameTime g),
                 tiles := setCell (tiles g) (fst xy) (snd xy) (PowerUpTile cx cy True (gameTime g))\<rparr>
          else g
      | _ \<Rightarrow> g)"

definition checkCollisions :: "Game \<Rightarrow> error + Game" where
  "checkCollisions g =
     (if vz (position (player g)) = 0
      then (case playerIsOnTheseTiles g of
              Inl e \<Rightarrow> Inl e
            | Inr theseTiles \<Rightarrow>
                if length theseTiles > 0
                then (let g1 = g\<lparr>player := land (player g)\<rparr>
                      in Inr (if \<not> inRotation (player g1) then fold consumeTile theseTiles g1
                              else g1))
                else if \<not> inAir (player g)
                then Inr (g\<lparr>player := setInAir (player g) (gameTime g)\<rparr>)
                else Inr g)
      else Inr g)"

definition examineInputs :: "Game \<Rightarrow> Game" where
  "examineInputs g =
     (if jump (inputs g) \<or> jumpQueued g
      then (if \<not> inAir (player g) \<and> \<not> inRotation (player g)
            then g\<lparr>jumpQueued := False, player := Player_jump (player g) (gameTime g)\<rparr>
            else if \<not> inAir (player g) then g\<lparr>jumpQueued := True\<rparr>
            else g)
      else g)"

definition changeOrientation :: "Game \<Rightarrow> Vect \<Rightarrow> Events \<Rightarrow> real \<Rightarrow> Game" where
  "changeOrientation g dir ev dt =
     (let p = player g in
      if lengthSquared dir > 0 \<and> \<not> inRotation p
      then (let p1 = (if \<bar>jsRem (angle ev - orientation p) (PI / 2)\<bar> < EPSILON
                      then (let p' = setOrientation p (angle ev)
                            in if \<not> inAir p' then beginRotation p' (gameTime g) else p')
                      else setOrientation p
                             (orientation p
                                + (if orientationClockwise ev then -1 else 1) * dt
                                    * orientationAngularVelocity p));
                p2 = (if vz (position p1) \<ge> 0 then flyTowards p1 dir dt else p1)
            in g\<lparr>player := p2\<rparr>)
      else g)"

definition getCameraPosition :: "Game \<Rightarrow> real \<Rightarrow> real" where
  \<comment> \<open>the inner call \<open>getCameraPosition(this.gameOverAt)\<close> takes the first branch\<close>
  "getCameraPosition g t =
     (let st = gameSettings g;
          before = (\<lambda>u. gameAcceleration st / 2 * u * u + gameInitialVelocity st * u
                          + gameInitialPosition st)
      in if \<not> gameOver g \<or> t \<le> gameOverAt g then before t
         else (let v = gameAcceleration st * gameOverAt g + gameInitialVelocity st;
                   a = (if rendererFallingAnimationDuration st > 0
                        then - v / rendererFallingAnimationDuration st else 0);
                   dt = min (rendererFallingAnimationDuration st) (t - gameOverAt g)
               in before (gameOverAt g) + a / 2 * dt * dt + v * dt))"

definition finishStep :: "Game \<Rightarrow> Game" where
  \<comment> \<open>camera position, score and the game-over test\<close>
  "finishStep g =
     (let g1 = g\<lparr>cameraPosition := getCameraPosition g (gameTime g)\<rparr>;
          distance = dot (Vect (SQRT2 / 2) (SQRT2 / 2) 0) (position (player g1));
          g2 = g1\<lparr>score := max (score g1)
                  \<lfloor>distance - dot (Vect (SQRT2 / 2) (SQRT2 / 2) 0)
                                   (playerInitialPosition (gameSettings g1))\<rfloor>\<rparr>
      in if \<not> gameOver g2
            \<and> (distance < cameraPosition g2 - gameDeathZone (gameSettings g2)
               \<or> vz (position (player g2)) < - EPSILON)
         then g2\<lparr>gameOver := True, gameOverAt := gameTime g2\<rparr>
         else g2)"

text \<open>
  One pass through the body of \<open>update\<close>, up to the test for another event, in two halves.
  \<open>advance\<close> picks the closest event, moves the player to it and checks the collisions; it returns
  the state at the comment \<open>Examining inputs\<close> with the local variables \<open>direction\<close>, the
  events and \<open>dt\<close>. \<open>updateStep\<close> then examines the inputs, changes the orientation and
  computes camera, score and game over; it returns the new state and \<open>dt\<close>.
\<close>

definition advance :: "Game \<Rightarrow> real \<Rightarrow> error + Game \<times> Vect \<times> Events \<times> real" where
  "advance g elapsedTime =
     (case (if lengthSquared (direction (inputs g)) > 0 then normalizeV (direction (inputs g))
            else Inr (direction (inputs g))) of
        Inl e \<Rightarrow> Inl e
      | Inr dir \<Rightarrow>
          (let ev = nextEvents g dir elapsedTime;
               dt = minimum (dts ev);
               g1 = g\<lparr>gameTime := gameTime g + dt\<rparr>;
               g2 = finishRotation g1 ev dt;
               g3 = reachGround g2 ev dt;
               g4 = reachOrientation g3 ev dt
           in case checkCollisions g4 of
                Inl e \<Rightarrow> Inl e
              | Inr g5 \<Rightarrow> Inr (g5, dir, ev, dt)))"

definition updateStep :: "Game \<Rightarrow> real \<Rightarrow> error + Game \<times> real" where
  "updateStep g elapsedTime =
     (case advance g elapsedTime of
        Inl e \<Rightarrow> Inl e
      | Inr (g5, dir, ev, dt) \<Rightarrow>
          Inr (finishStep (changeOrientation (examineInputs g5) dir ev dt), dt))"

text \<open>
  \<open>update\<close> calls itself on the time that is left while more than \<open>EPSILON\<close> is left. The result
  is \<open>None\<close> when the chain of calls does not end.
\<close>

partial_function (option) update :: "Game \<Rightarrow> real \<Rightarrow> (error + Game) option" where
  "update g elapsedTime =
     (case updateStep g elapsedTime of
        Inl e \<Rightarrow> Some (Inl e)
      | Inr r \<Rightarrow>
          if elapsedTime - snd r > EPSILON then update (fst r) (elapsedTime - snd r)
          else Some (Inr (fst r)))"

subsection \<open>The callers of the game\<close>

text \<open>
  Between two frames the application overwrites the fields of the live \<open>inputs\<close> object and calls
  \<open>update\<close>; the renderer calls \<open>generateWorld\<close>. A run of the game is a list of such calls. It
  stops at the first exception, and has no result when a call of \<open>update\<close> does not return.
\<close>

datatype Call = CallUpdate GameInputs real | CallGenerateWorld int int

fun run :: "Game \<Rightarrow> Call list \<Rightarrow> (error + Game) option" where
  "run g [] = Some (Inr g)"
| "run g (CallUpdate inp elapsedTime # calls) =
     (case update (g\<lparr>inputs := inp\<rparr>) elapsedTime of
        None \<Rightarrow> None
      | Some (Inl e) \<Rightarrow> Some (Inl e)
      | Some (Inr g') \<Rightarrow> run g' calls)"
| "run g (CallGenerateWorld start end # calls) = run (generateWorld g start end) calls"

subsection \<open>Predicates of the claims about the world\<close>

text \<open>
  \<open>cellsNonNegative\<close>: no row and no cell of the world has a negative coordinate, and every cell
  object carries the coordinates of its key. \<open>cellsInsideViewport\<close>: every cell of the world has
  both coordinates between \<open>viewportStart\<close> and \<open>viewportEnd\<close>. \<open>unconsumed\<close> forgets the
  consumption state of a power-up, and \<open>sameWorld\<close> relates two states whose viewports and
  generators are equal and whose worlds have the same rows and, up to consumption, the same
  cells.
\<close>

definition cellsNonNegative :: "World \<Rightarrow> bool" where
  "cellsNonNegative ts \<longleftrightarrow>
     (\<forall>y. ts y \<noteq> None \<longrightarrow> 0 \<le> y) \<and>
     (\<forall>x y c. lookupCell ts x y = Some c \<longrightarrow> 0 \<le> x \<and> 0 \<le> y \<and> cellX c = x \<and> cellY c = y)"

definition cellsInsideViewport :: "Game \<Rightarrow> bool" where
  "cellsInsideViewport g \<longleftrightarrow>
     (\<forall>x y. lookupCell (tiles g) x y \<noteq> None \<longrightarrow>
        viewportStart g \<le> x \<and> x \<le> viewportEnd g \<and> viewportStart g \<le> y \<and> y \<le> viewportEnd g)"

fun unconsumed :: "GameCell \<Rightarrow> GameCell" where
  "unconsumed (PowerUpTile cx cy consumed since) = PowerUpTile cx cy False 0"
| "unconsumed (Tile cx cy) = Tile cx cy"
| "unconsumed (GameCell cx cy) = GameCell cx cy"

definition sameWorld :: "Game \<Rightarrow> Game \<Rightarrow> bool" where
  "sameWorld a b \<longleftrightarrow>
     viewportStart b = viewportStart a \<and> viewportEnd b = viewportEnd a \<and> generator b = generator a \<and>
     (\<forall>y. (tiles b y = None) = (tiles a y = None)) \<and>
     (\<forall>x y. map_option unconsumed (lookupCell (tiles b) x y)
              = map_option unconsumed (lookupCell (tiles a) x y))"

subsection \<open>A predicate of the claim about jumps\<close>


subsection \<open>Predicates of the claim about isPointInPath\<close>

text \<open>
  \<open>strictlyInsideHull p vs\<close>: the point \<open>p\<close> is a convex combination of the points \<open>vs\<close> in which
  every point has a positive weight; these are the points of the relative interior of the
  convex hull of \<open>vs\<close>. \<open>edges\<close> pairs every vertex with the next one, the last with the first.
  \<open>planar\<close>: the vertices lie in the plane through the first vertex that the normal of the
  path is orthogonal to, and \<open>onPlane\<close>: so does the point. \<open>convexWound\<close>: every vertex lies
  on the left of, or on, the line of every edge, where left is counterclockwise about the
  normal. \<open>onEdge\<close>: the point lies on the segment of an edge.
\<close>

definition weightedSum :: "(nat \<Rightarrow> real) \<Rightarrow> Vect list \<Rightarrow> Vect" where
  "weightedSum c vs =
     Vect (\<Sum>i<length vs. c i * vx (vs ! i)) (\<Sum>i<length vs. c i * vy (vs ! i))
          (\<Sum>i<length vs. c i * vz (vs ! i))"

definition strictlyInsideHull :: "Vect \<Rightarrow> Vect list \<Rightarrow> bool" where
  "strictlyInsideHull p vs \<longleftrightarrow>
     (\<exists>c. (\<forall>i<length vs. 0 < c i) \<and> (\<Sum>i<length vs. c i) = 1 \<and> weightedSum c vs = p)"

definition edges :: "Vect list \<Rightarrow> (Vect \<times> Vect) list" where
  "edges vs = zip vs (rotate1 vs)"

definition planar :: "Path \<Rightarrow> bool" where
  "planar F \<longleftrightarrow> (\<forall>v\<in>set (vertices F). dot (normal F) (substract v (hd (vertices F))) = 0)"

definition onPlane :: "Vect \<Rightarrow> Path \<Rightarrow> bool" where
  "onPlane p F \<longleftrightarrow> dot (normal F) (substract p (hd (vertices F))) = 0"

definition convexWound :: "Path \<Rightarrow> bool" where
  "convexWound F \<longleftrightarrow>
     (\<forall>(a, b)\<in>set (edges (vertices F)).
        \<forall>c\<in>set (vertices F). 0 \<le> dot (normal F) (cross (substract b a) (substract c a)))"

definition onEdge :: "Vect \<Rightarrow> Path \<Rightarrow> bool" where
  "onEdge p F \<longleftrightarrow>
     (\<exists>(a, b)\<in>set (edges (vertices F)). \<exists>t. 0 \<le> t \<and> t \<le> 1 \<and> p = add a (multiply (substract b a) t))"

subsection \<open>A predicate of the claim about the first tile\<close>

text \<open>
  \<open>windowKeepsRow y\<close>: the call is not a call of \<open>generateWorld\<close> with a \<open>start\<close> beyond the
  row \<open>y\<close>, so that it does not delete the row \<open>y\<close>.
\<close>

fun windowKeepsRow :: "int \<Rightarrow> Call \<Rightarrow> bool" where
  "windowKeepsRow y (CallGenerateWorld start end) = (start \<le> y)"
| "windowKeepsRow y (CallUpdate i elapsedTime) = True"

subsection \<open>Predicates of the claim about the calls of update\<close>



definition misaligned :: "Game \<Rightarrow> Vect \<Rightarrow> bool" where
  "misaligned g dir \<longleftrightarrow>
     lengthSquared dir > 0 \<and> \<not> inRotation (player g)
     \<and> \<bar>jsRem (atan2 (vy dir) (vx dir) - orientation (player g)) (PI / 2)\<bar> > EPSILON"








section \<open>Vector algebra\<close>

lemma lengthSquared_nonneg: "0 \<le> lengthSquared v"
  by (simp add: lengthSquared_def dot_def)

lemma lengthV_nonneg: "0 \<le> lengthV v"
  by (simp add: lengthV_def lengthSquared_nonneg)

lemma lengthSquared_multiply: "lengthSquared (multiply v c) = c\<^sup>2 * lengthSquared v"
  by (simp add: lengthSquared_def dot_def multiply_def power2_eq_square algebra_simps)

lemma lengthV_multiply: "lengthV (multiply v c) = \<bar>c\<bar> * lengthV v"
  by (simp add: lengthV_def lengthSquared_multiply real_sqrt_mult)

text \<open>
  C8. \<open>normalize\<close> raises the zero-vector error exactly when the length of the vector is zero;
  for every vector of non-zero length it returns a vector whose length is exactly 1.
\<close>

theorem normalize_fails_iff_zero_length:
  "(normalizeV v = Inl ZeroVector \<longleftrightarrow> lengthV v = 0) \<and>
   (lengthV v \<noteq> 0 \<longrightarrow> (\<exists>u. normalizeV v = Inr u \<and> lengthV u = 1))"
proof -
  have pos: "lengthV v \<noteq> 0 \<Longrightarrow> 0 < lengthV v"
    using lengthV_nonneg [of v] by simp
  show ?thesis
    using pos by (auto simp: normalizeV_def Let_def lengthV_multiply)
qed

theorem normalize_fails_iff_zero_length_witness:
  "lengthV (Vect 1 0 0) \<noteq> 0 \<and> normalizeV (Vect 0 0 0) = Inl ZeroVector \<and>
   (\<exists>u. normalizeV (Vect 1 0 0) = Inr u \<and> lengthV u = 1)"
proof -
  have nz: "lengthV (Vect 1 0 0) \<noteq> 0"
    by (simp add: lengthV_def lengthSquared_def dot_def)
  have z: "lengthV (Vect 0 0 0) = 0"
    by (simp add: lengthV_def lengthSquared_def dot_def)
  show ?thesis
    using nz z normalize_fails_iff_zero_length [of "Vect 1 0 0"]
      normalize_fails_iff_zero_length [of "Vect 0 0 0"]
    by blast
qed

section \<open>The world after generateWorld\<close>

lemma fold_generateRow_lookup:
  "fold (\<lambda>x r. if (x < vEnd \<and> y < vEnd) \<or> r x \<noteq> None then r else r(x \<mapsto> newCell gen x y)) xs row k =
     (if k \<in> set xs \<and> \<not> (k < vEnd \<and> y < vEnd) \<and> row k = None then Some (newCell gen k y)
      else row k)"
  by (induction xs arbitrary: row) auto

lemma generateRow_lookup:
  "generateRow gen vEnd start end y row k =
     (if start \<le> k \<and> k \<le> end \<and> \<not> (k < vEnd \<and> y < vEnd) \<and> row k = None
      then Some (newCell gen k y) else row k)"
  by (simp only: generateRow_def fold_generateRow_lookup set_upto atLeastAtMost_iff conj_assoc)

lemma fold_generateRows_lookup:
  "distinct ys \<Longrightarrow>
   fold (\<lambda>y w. w(y \<mapsto> generateRow gen vEnd start end y
                          (case w y of None \<Rightarrow> Map.empty | Some row \<Rightarrow> row))) ys ts k =
     (if k \<in> set ys
      then Some (generateRow gen vEnd start end k (case ts k of None \<Rightarrow> Map.empty | Some row \<Rightarrow> row))
      else ts k)"
  by (induction ys arbitrary: ts) auto

lemma generateRows_lookup:
  "generateRows gen vEnd start end ts k =
     (if start \<le> k \<and> k \<le> end
      then Some (generateRow gen vEnd start end k (case ts k of None \<Rightarrow> Map.empty | Some row \<Rightarrow> row))
      else ts k)"
  by (simp only: generateRows_def fold_generateRows_lookup [OF distinct_upto] set_upto
        atLeastAtMost_iff)

lemma fold_deleteRows_lookup:
  "fold (\<lambda>i w. w(i := None)) is ts k = (if k \<in> set is then None else ts k)"
  by (induction "is" arbitrary: ts) auto

lemma deleteRows_lookup:
  "deleteRows vStart start ts k = (if vStart \<le> k \<and> k < start then None else ts k)"
  by (simp add: deleteRows_def fold_deleteRows_lookup)

lemma lookupCell_generateRows:
  "lookupCell (generateRows gen vEnd start end ts) x y =
     (if start \<le> y \<and> y \<le> end \<and> start \<le> x \<and> x \<le> end \<and> \<not> (x < vEnd \<and> y < vEnd)
         \<and> lookupCell ts x y = None
      then Some (newCell gen x y) else lookupCell ts x y)"
  by (auto simp: lookupCell_def generateRows_lookup generateRow_lookup split: option.splits)

lemma lookupCell_deleteRows:
  "lookupCell (deleteRows vStart start ts) x y =
     (if vStart \<le> y \<and> y < start then None else lookupCell ts x y)"
  by (simp add: lookupCell_def deleteRows_lookup)

text \<open>Every cell of the world after a call of \<open>generateWorld\<close>.\<close>

lemma lookupCell_generateWorld:
  "lookupCell (tiles (generateWorld g start0 end)) x y =
     (let start = max 0 start0;
          old = (if viewportStart g \<le> y \<and> y < start then None else lookupCell (tiles g) x y)
      in if viewportEnd g < end \<and> start \<le> y \<and> y \<le> end \<and> start \<le> x \<and> x \<le> end
            \<and> \<not> (x < viewportEnd g \<and> y < viewportEnd g) \<and> old = None
         then Some (newCell (generator g) x y) else old)"
  by (auto simp: generateWorld_def Let_def lookupCell_generateRows lookupCell_deleteRows)

lemma rows_generateWorld:
  "tiles (generateWorld g start0 end) y \<noteq> None \<longleftrightarrow>
     (viewportEnd g < end \<and> max 0 start0 \<le> y \<and> y \<le> end)
     \<or> (tiles g y \<noteq> None \<and> \<not> (viewportStart g \<le> y \<and> y < max 0 start0))"
  by (auto simp: generateWorld_def Let_def generateRows_lookup deleteRows_lookup)

lemma generateWorld_fields:
  "viewportStart (generateWorld g start0 end) = max 0 start0"
  "viewportEnd (generateWorld g start0 end) = end"
  "generator (generateWorld g start0 end) = generator g"
  "player (generateWorld g start0 end) = player g"
  "score (generateWorld g start0 end) = score g"
  "gameOver (generateWorld g start0 end) = gameOver g"
  "gameOverAt (generateWorld g start0 end) = gameOverAt g"
  "gameSettings (generateWorld g start0 end) = gameSettings g"
  "gameTime (generateWorld g start0 end) = gameTime g"
  by (simp_all add: generateWorld_def Let_def)

lemma lookupCell_newGame:
  "lookupCell (tiles (newGame st inp sd)) x y =
     (if x = 1 \<and> y = 1 then Some (Tile 1 1)
      else if 0 < rendererTilesOnScreen st \<and> 0 \<le> x \<and> x \<le> rendererTilesOnScreen st
                \<and> 0 \<le> y \<and> y \<le> rendererTilesOnScreen st
      then Some (newCell \<lparr>generatorSettings = st, seed = sd\<rparr> x y) else None)"
  by (auto simp: newGame_def lookupCell_generateWorld Let_def)
     (auto simp: lookupCell_def split: if_splits)

section \<open>The first power-up\<close>

lemma SQRT2_pos: "0 < SQRT2"
  by (simp add: SQRT2_def)

lemma powerUpIndex_first:
  assumes c: "0 < c"
    and v: "gameInitialVelocity st = c"
    and a: "gameAcceleration st = 0.1 * c"
    and t: "gameTimeBetweenPowerUps st = 10"
  shows "powerUpIndex st 0 = 0" and "powerUpIndex st (1 * c) = sqrt (6 / 5) - 1"
proof -
  have cc: "sqrt (c * c) = c"
    using c by simp
  then show "powerUpIndex st 0 = 0"
    by (simp add: powerUpIndex_def v a t)
  have "c * c + 2 * (0.1 * c) * (1 * c) = (6 / 5) * (c * c)"
    by (simp add: algebra_simps)
  then have "sqrt (c * c + 2 * (0.1 * c) * (1 * c)) = sqrt (6 / 5) * sqrt (c * c)"
    by (simp only: real_sqrt_mult)
  then have "powerUpIndex st (1 * c) = (- c + sqrt (6 / 5) * c) / (0.1 * c * 10)"
    by (simp only: powerUpIndex_def v a t cc)
  also have "\<dots> = sqrt (6 / 5) - 1"
    using c by (simp add: field_simps)
  finally show "powerUpIndex st (1 * c) = sqrt (6 / 5) - 1" .
qed

lemma floor_sqrt_six_fifths: "\<lfloor>sqrt (6 / 5) - 1 :: real\<rfloor> = 0"
proof -
  have "1 \<le> sqrt (6 / 5 :: real)"
    by simp
  moreover have "sqrt (6 / 5 :: real) < sqrt 4"
    by (rule real_sqrt_less_mono) simp
  then have "sqrt (6 / 5 :: real) < 2"
    by simp
  ultimately have "0 \<le> sqrt (6 / 5 :: real) - 1" "sqrt (6 / 5 :: real) - 1 < 1"
    by simp_all
  then show ?thesis
    by (simp only: floor_eq_iff) simp
qed

lemma newGameSettings_simps:
  "gameInitialVelocity newGameSettings = SQRT2"
  "gameAcceleration newGameSettings = 0.1 * SQRT2"
  "gameTimeBetweenPowerUps newGameSettings = 10"
  by (simp_all add: newGameSettings_def)

lemma floor_powerUpIndex_newGameSettings:
  "\<lfloor>powerUpIndex newGameSettings 0\<rfloor> = 0"
  "\<lfloor>powerUpIndex newGameSettings (1 * SQRT2)\<rfloor> = 0"
  by (simp_all only: powerUpIndex_first [OF SQRT2_pos newGameSettings_simps]
        floor_sqrt_six_fifths floor_zero)

lemma isPowerUp_1_1:
  assumes "generatorSettings gen = newGameSettings"
  shows "\<not> isPowerUp gen 1 1"
proof -
  have "\<lfloor>powerUpIndex newGameSettings ((1 - 1) * SQRT2)\<rfloor> = 0"
    using floor_powerUpIndex_newGameSettings(1) by simp
  then show ?thesis
    using floor_powerUpIndex_newGameSettings(2) by (simp add: isPowerUp_def assms)
qed

text \<open>
  C3, as stated, fails: with the settings of the constructor, \<open>n(1 * SQRT2)\<close> is
  \<open>sqrt (6 / 5) - 1\<close>, so it has the same floor as \<open>n(0)\<close>, and there is no power-up at \<open>(1, 1)\<close>.
\<close>

theorem isPowerUp_1_1_claim_fails:
  "\<not> (\<lfloor>powerUpIndex newGameSettings (1 * SQRT2)\<rfloor> \<noteq> \<lfloor>powerUpIndex newGameSettings 0\<rfloor>
      \<and> isPowerUp \<lparr>generatorSettings = newGameSettings, seed = 0\<rparr> 1 1)"
  by (simp only: floor_powerUpIndex_newGameSettings) simp

text \<open>
  C3, amended. With \<open>a = 0.1 * SQRT2\<close>, \<open>v0 = 1.0 * SQRT2\<close> and \<open>t0 = 10\<close>, the values
  \<open>n(1 * SQRT2)\<close> and \<open>n(0)\<close> both have floor 0, and \<open>isPowerUp(1, 1)\<close> returns false for every
  seed. The same holds with the real square root of 2 in the place of the constant \<open>SQRT2\<close>.
\<close>

theorem isPowerUp_1_1_false:
  "\<lfloor>powerUpIndex newGameSettings (1 * SQRT2)\<rfloor> = 0 \<and> \<lfloor>powerUpIndex newGameSettings 0\<rfloor> = 0
   \<and> \<not> isPowerUp \<lparr>generatorSettings = newGameSettings, seed = sd\<rparr> 1 1
   \<and> \<lfloor>powerUpIndex (newGameSettings\<lparr>gameInitialVelocity := sqrt 2, gameAcceleration := 0.1 * sqrt 2\<rparr>)
        (1 * sqrt 2)\<rfloor> = 0"
proof -
  have "0 < sqrt (2::real)" by simp
  from powerUpIndex_first(2) [OF this, of "newGameSettings\<lparr>gameInitialVelocity := sqrt 2, gameAcceleration := 0.1 * sqrt 2\<rparr>"]
  have "powerUpIndex (newGameSettings\<lparr>gameInitialVelocity := sqrt 2, gameAcceleration := 0.1 * sqrt 2\<rparr>)
        (1 * sqrt 2) = sqrt (6 / 5) - 1"
    by (simp add: newGameSettings_def)
  then have "\<lfloor>powerUpIndex (newGameSettings\<lparr>gameInitialVelocity := sqrt 2, gameAcceleration := 0.1 * sqrt 2\<rparr>)
        (1 * sqrt 2)\<rfloor> = 0"
    by (simp only: floor_sqrt_six_fifths)
  moreover have "\<not> isPowerUp \<lparr>generatorSettings = newGameSettings, seed = sd\<rparr> 1 1"
    by (rule isPowerUp_1_1) simp
  ultimately show ?thesis
    using floor_powerUpIndex_newGameSettings by blast
qed

section \<open>What update leaves alone\<close>

lemma consumeTile_frame:
  "score (consumeTile xy g) = score g \<and> gameOver (consumeTile xy g) = gameOver g \<and>
   gameOverAt (consumeTile xy g) = gameOverAt g \<and> gameTime (consumeTile xy g) = gameTime g \<and>
   gameSettings (consumeTile xy g) = gameSettings g \<and> inputs (consumeTile xy g) = inputs g \<and>
   jumpQueued (consumeTile xy g) = jumpQueued g \<and> generator (consumeTile xy g) = generator g \<and>
   viewportStart (consumeTile xy g) = viewportStart g \<and> viewportEnd (consumeTile xy g) = viewportEnd g"
  by (simp add: consumeTile_def split: option.splits GameCell.splits)

lemma fold_consumeTile_frame:
  "score (fold consumeTile ts g) = score g \<and> gameOver (fold consumeTile ts g) = gameOver g \<and>
   gameOverAt (fold consumeTile ts g) = gameOverAt g \<and> gameTime (fold consumeTile ts g) = gameTime g \<and>
   gameSettings (fold consumeTile ts g) = gameSettings g \<and> inputs (fold consumeTile ts g) = inputs g \<and>
   jumpQueued (fold consumeTile ts g) = jumpQueued g \<and> generator (fold consumeTile ts g) = generator g \<and>
   viewportStart (fold consumeTile ts g) = viewportStart g \<and> viewportEnd (fold consumeTile ts g) = viewportEnd g"
  by (induction ts arbitrary: g) (simp_all add: consumeTile_frame)

lemma checkCollisions_frame:
  assumes "checkCollisions g = Inr g'"
  shows "score g' = score g \<and> gameOver g' = gameOver g \<and> gameOverAt g' = gameOverAt g \<and>
         gameTime g' = gameTime g \<and> gameSettings g' = gameSettings g \<and> inputs g' = inputs g \<and>
         jumpQueued g' = jumpQueued g \<and> generator g' = generator g \<and>
         viewportStart g' = viewportStart g \<and> viewportEnd g' = viewportEnd g"
  using assms
  by (auto simp: checkCollisions_def Let_def fold_consumeTile_frame split: if_splits sum.splits)

lemma motion_frame:
  "score (reachOrientation (reachGround (finishRotation g ev dt) ev dt) ev dt) = score g \<and>
   gameOver (reachOrientation (reachGround (finishRotation g ev dt) ev dt) ev dt) = gameOver g \<and>
   gameOverAt (reachOrientation (reachGround (finishRotation g ev dt) ev dt) ev dt) = gameOverAt g \<and>
   gameTime (reachOrientation (reachGround (finishRotation g ev dt) ev dt) ev dt) = gameTime g \<and>
   gameSettings (reachOrientation (reachGround (finishRotation g ev dt) ev dt) ev dt) = gameSettings g \<and>
   inputs (reachOrientation (reachGround (finishRotation g ev dt) ev dt) ev dt) = inputs g \<and>
   jumpQueued (reachOrientation (reachGround (finishRotation g ev dt) ev dt) ev dt) = jumpQueued g \<and>
   generator (reachOrientation (reachGround (finishRotation g ev dt) ev dt) ev dt) = generator g \<and>
   viewportStart (reachOrientation (reachGround (finishRotation g ev dt) ev dt) ev dt) = viewportStart g \<and>
   viewportEnd (reachOrientation (reachGround (finishRotation g ev dt) ev dt) ev dt) = viewportEnd g \<and>
   tiles (reachOrientation (reachGround (finishRotation g ev dt) ev dt) ev dt) = tiles g"
  by (simp add: reachOrientation_def reachGround_def finishRotation_def)

lemma advance_frame:
  assumes "advance g e = Inr (g5, dir, ev, dt)"
  shows "score g5 = score g \<and> gameOver g5 = gameOver g \<and> gameOverAt g5 = gameOverAt g \<and>
         gameTime g5 = gameTime g + dt \<and> gameSettings g5 = gameSettings g \<and> inputs g5 = inputs g \<and>
         jumpQueued g5 = jumpQueued g \<and> generator g5 = generator g \<and>
         viewportStart g5 = viewportStart g \<and> viewportEnd g5 = viewportEnd g"
proof -
  from assms have
    "checkCollisions (reachOrientation (reachGround (finishRotation (g\<lparr>gameTime := gameTime g + dt\<rparr>)
        ev dt) ev dt) ev dt) = Inr g5"
    by (auto simp: advance_def Let_def split: sum.splits if_splits)
  from checkCollisions_frame [OF this] show ?thesis
    by (simp add: motion_frame)
qed

lemma examineInputs_frame:
  "score (examineInputs g) = score g \<and> gameOver (examineInputs g) = gameOver g \<and>
   gameOverAt (examineInputs g) = gameOverAt g \<and> gameTime (examineInputs g) = gameTime g \<and>
   gameSettings (examineInputs g) = gameSettings g \<and> inputs (examineInputs g) = inputs g \<and>
   generator (examineInputs g) = generator g \<and> tiles (examineInputs g) = tiles g \<and>
   viewportStart (examineInputs g) = viewportStart g \<and> viewportEnd (examineInputs g) = viewportEnd g"
  by (simp add: examineInputs_def)

lemma changeOrientation_frame:
  "score (changeOrientation g dir ev dt) = score g \<and>
   gameOver (changeOrientation g dir ev dt) = gameOver g \<and>
   gameOverAt (changeOrientation g dir ev dt) = gameOverAt g \<and>
   gameTime (changeOrientation g dir ev dt) = gameTime g \<and>
   gameSettings (changeOrientation g dir ev dt) = gameSettings g \<and>
   inputs (changeOrientation g dir ev dt) = inputs g \<and>
   jumpQueued (changeOrientation g dir ev dt) = jumpQueued g \<and>
   generator (changeOrientation g dir ev dt) = generator g \<and>
   tiles (changeOrientation g dir ev dt) = tiles g \<and>
   viewportStart (changeOrientation g dir ev dt) = viewportStart g \<and>
   viewportEnd (changeOrientation g dir ev dt) = viewportEnd g"
  by (simp add: changeOrientation_def Let_def)

lemma finishStep_frame:
  "gameTime (finishStep g) = gameTime g \<and> gameSettings (finishStep g) = gameSettings g \<and>
   inputs (finishStep g) = inputs g \<and> jumpQueued (finishStep g) = jumpQueued g \<and>
   generator (finishStep g) = generator g \<and> tiles (finishStep g) = tiles g \<and>
   player (finishStep g) = player g \<and>
   viewportStart (finishStep g) = viewportStart g \<and> viewportEnd (finishStep g) = viewportEnd g"
  by (simp add: finishStep_def Let_def)

lemma finishStep_score: "score g \<le> score (finishStep g)"
  by (simp add: finishStep_def Let_def)

lemma finishStep_gameOver:
  "(gameOver g \<longrightarrow> gameOver (finishStep g) \<and> gameOverAt (finishStep g) = gameOverAt g) \<and>
   (\<not> gameOver g \<and> gameOver (finishStep g) \<longrightarrow> gameOverAt (finishStep g) = gameTime g)"
  by (simp add: finishStep_def Let_def)

text \<open>A step ends with \<open>finishStep\<close>, on a state that has the old score and game-over fields.\<close>

lemma updateStep_cases:
  assumes "updateStep g e = Inr (g', dt)"
  obtains h where "g' = finishStep h" "score h = score g" "gameOver h = gameOver g"
    "gameOverAt h = gameOverAt g" "gameTime h = gameTime g + dt"
proof -
  from assms obtain g5 dir ev where
    a: "advance g e = Inr (g5, dir, ev, dt)"
    and g': "g' = finishStep (changeOrientation (examineInputs g5) dir ev dt)"
    by (auto simp: updateStep_def split: sum.splits)
  show ?thesis
    using that [OF g'] advance_frame [OF a]
    by (simp add: changeOrientation_frame examineInputs_frame)
qed

lemma updateStep_score: "updateStep g e = Inr (g', dt) \<Longrightarrow> score g \<le> score g'"
  by (erule updateStep_cases) (use finishStep_score in metis)

lemma updateStep_gameOver:
  assumes "updateStep g e = Inr (g', dt)"
  shows "(gameOver g \<longrightarrow> gameOver g' \<and> gameOverAt g' = gameOverAt g) \<and>
         (\<not> gameOver g \<and> gameOver g' \<longrightarrow> gameOverAt g' = gameTime g')"
proof -
  from assms obtain h where h: "g' = finishStep h" "gameOver h = gameOver g"
    "gameOverAt h = gameOverAt g"
    by (rule updateStep_cases)
  show ?thesis
    using finishStep_gameOver [of h] finishStep_frame [of h] by (simp add: h)
qed

text \<open>
  A relation that every step establishes and that is transitive holds between the state before
  a call of \<open>update\<close> and the state it returns.
\<close>

lemma update_relation:
  assumes step: "\<And>g e g' dt. updateStep g e = Inr (g', dt) \<Longrightarrow> R g g'"
    and trans: "\<And>a b c. R a b \<Longrightarrow> R b c \<Longrightarrow> R a c"
    and run: "update g e = Some r"
  shows "\<forall>g'. r = Inr g' \<longrightarrow> R g g'"
  using run
proof (induct rule: update.raw_induct [rotated 1, consumes 1, case_names 1])
  case (1 upd g e r)
  show ?case
  proof (cases "updateStep g e")
    case (Inl err)
    with 1 show ?thesis by auto
  next
    case (Inr pr)
    then have st: "updateStep g e = Inr (fst pr, snd pr)" by simp
    show ?thesis
    proof (cases "EPSILON < e - snd pr")
      case True
      with 1(2) Inr have "upd (fst pr) (e - snd pr) = Some r" by simp
      from 1(1) [OF this] step [OF st] trans show ?thesis by blast
    next
      case False
      with 1(2) Inr have "r = Inr (fst pr)" by simp
      with step [OF st] show ?thesis by simp
    qed
  qed
qed

lemma update_score: "update g e = Some (Inr g') \<Longrightarrow> score g \<le> score g'"
  using update_relation [where R = "\<lambda>a b. score a \<le> score b", OF updateStep_score]
  by fastforce

lemma updateStep_gameOver_stays:
  "updateStep g e = Inr (g', dt) \<Longrightarrow>
   gameOver g \<longrightarrow> gameOver g' \<and> gameOverAt g' = gameOverAt g"
  using updateStep_gameOver by blast

lemma update_gameOver:
  assumes "update g e = Some (Inr g')" "gameOver g"
  shows "gameOver g' \<and> gameOverAt g' = gameOverAt g"
  using update_relation [where R = "\<lambda>a b. gameOver a \<longrightarrow> gameOver b \<and> gameOverAt b = gameOverAt a",
      OF updateStep_gameOver_stays _ assms(1)] assms(2)
  by fastforce

section \<open>The first frame of a game\<close>

lemma sqrt_sixteenth: "sqrt (1 / 16) = 1 / 4"
  by (rule real_sqrt_unique) (simp_all add: power2_eq_square)

lemma lengthV_quarter: "lengthV (Vect 0 0 (- (1 / 4))) = 1 / 4"
  by (simp add: lengthV_def lengthSquared_def dot_def sqrt_sixteenth)

lemma newPath_square:
  "newPath [Vect a b c, Vect a (b + 1 / 2) c, Vect (a + 1 / 2) (b + 1 / 2) c, Vect (a + 1 / 2) b c] =
   Inr \<lparr>vertices = [Vect a b c, Vect a (b + 1 / 2) c, Vect (a + 1 / 2) (b + 1 / 2) c, Vect (a + 1 / 2) b c],
        normal = Vect 0 0 (- 1)\<rparr>"
  by (simp add: normalizeV_def substract_def add_def multiply_def cross_def lengthV_quarter)

text \<open>The footprint of the player where the constructor puts it.\<close>

lemma getCollisionPath_start:
  assumes "inRotation p = False" "orientation p = 0" "sVect p = Vect (1 / 2) (1 / 2) (1 / 2)"
    "position p = Vect (3 / 2) (3 / 2) 0"
  shows "getCollisionPath p =
    Inr \<lparr>vertices = [Vect (5 / 4) (5 / 4) 0, Vect (5 / 4) (7 / 4) 0, Vect (7 / 4) (7 / 4) 0, Vect (7 / 4) (5 / 4) 0],
         normal = Vect 0 0 (- 1)\<rparr>"
proof -
  let ?sq = "\<lparr>vertices = [Vect 0 0 0, Vect 0 (1 / 2) 0, Vect (1 / 2) (1 / 2) 0, Vect (1 / 2) 0 0],
               normal = Vect 0 0 (- 1)\<rparr>"
  have 1: "newPath [ZERO, cloneY (sVect p), cloneXY (sVect p), cloneX (sVect p)] = Inr ?sq"
    using newPath_square [of 0 0 0] by (simp add: assms ZERO_def cloneY_def cloneXY_def cloneX_def)
  have 2: "Path_rotateZ ?sq 0 (multiply (sVect p) (1 / 2)) = Inr ?sq"
    using newPath_square [of "- (1 / 4)" "- (1 / 4)" "- (1 / 4)"] newPath_square [of 0 0 0]
    by (simp add: Path_rotateZ_def translate_def assms multiply_def add_def rotateZ_def)
  have 3: "translate ?sq (substract (position p) (multiply (cloneXY (sVect p)) (1 / 2))) =
    Inr \<lparr>vertices = [Vect (5 / 4) (5 / 4) 0, Vect (5 / 4) (7 / 4) 0, Vect (7 / 4) (7 / 4) 0, Vect (7 / 4) (5 / 4) 0],
         normal = Vect 0 0 (- 1)\<rparr>"
    using newPath_square [of "5 / 4" "5 / 4" 0]
    by (simp add: translate_def assms multiply_def add_def substract_def cloneXY_def)
  show ?thesis
    by (simp add: getCollisionPath_def assms(1,2) 1 2 3 del: newPath.simps)
qed

lemma newPlayer_start:
  "inRotation (newPlayer newGameSettings) = False"
  "orientation (newPlayer newGameSettings) = 0"
  "sVect (newPlayer newGameSettings) = Vect (1 / 2) (1 / 2) (1 / 2)"
  "position (newPlayer newGameSettings) = Vect (3 / 2) (3 / 2) 0"
  "inAir (newPlayer newGameSettings) = False"
  "velocity (newPlayer newGameSettings) = Vect 0 0 0"
  "acceleration (newPlayer newGameSettings) = Vect 0 0 (- 30)"
  by (simp_all add: newPlayer_def updateStats_def Let_def newGameSettings_def multiply_def ONE_def
        ZERO_def)

lemma playerIsOnTheseTiles_start:
  assumes "inRotation (player g) = False" "orientation (player g) = 0"
    "sVect (player g) = Vect (1 / 2) (1 / 2) (1 / 2)"
    "position (player g) = Vect (3 / 2) (3 / 2) 0"
    and "lookupCell (tiles g) 1 1 = Some (Tile 1 1)"
  shows "playerIsOnTheseTiles g = Inr [(1, 1)]"
  by (simp add: playerIsOnTheseTiles_def getCollisionPath_start [OF assms(1-4)] vertexStep_def
        hasTile_def assms(5))

lemma advance_start:
  assumes p: "inRotation (player g) = False" "orientation (player g) = 0"
      "sVect (player g) = Vect (1 / 2) (1 / 2) (1 / 2)"
      "position (player g) = Vect (3 / 2) (3 / 2) 0"
    and air: "inAir (player g) = False"
    and cell: "lookupCell (tiles g) 1 1 = Some (Tile 1 1)"
    and dir: "direction (inputs g) = ZERO"
    and e: "e \<noteq> 0"
  shows "advance g e =
    Inr (g\<lparr>gameTime := gameTime g + e, player := land (player g)\<rparr>, Vect 0 0 0,
         \<lparr>dts = [e], dtRotation = 0, dtFalling = 0, dtOrientation = 0,
          orientationClockwise = False, angle = 0\<rparr>, e)"
proof -
  let ?g1 = "g\<lparr>gameTime := gameTime g + e\<rparr>"
  let ?ev = "\<lparr>dts = [e], dtRotation = 0, dtFalling = 0, dtOrientation = 0,
       orientationClockwise = False, angle = 0\<rparr>"
  have ev: "nextEvents g (Vect 0 0 0) e = ?ev"
    by (simp add: nextEvents_def Let_def p air lengthSquared_def dot_def)
  have motion: "reachOrientation (reachGround (finishRotation ?g1 ?ev e) ?ev e) ?ev e = ?g1"
    using e by (simp add: reachOrientation_def reachGround_def finishRotation_def p air)
  have tiles1: "playerIsOnTheseTiles ?g1 = Inr [(1, 1)]"
    by (rule playerIsOnTheseTiles_start) (simp_all add: p cell)
  have "checkCollisions ?g1 = Inr (?g1\<lparr>player := land (player g)\<rparr>)"
    by (simp add: checkCollisions_def tiles1 p Let_def land_def consumeTile_def cell)
  then show ?thesis
    by (simp add: advance_def dir lengthSquared_def dot_def ZERO_def Let_def ev motion
        minimum_def)
qed

lemma updateStep_start:
  assumes p: "inRotation (player g) = False" "orientation (player g) = 0"
      "sVect (player g) = Vect (1 / 2) (1 / 2) (1 / 2)"
      "position (player g) = Vect (3 / 2) (3 / 2) 0"
    and air: "inAir (player g) = False"
    and cell: "lookupCell (tiles g) 1 1 = Some (Tile 1 1)"
    and dir: "direction (inputs g) = ZERO"
    and e: "e \<noteq> 0"
    and inp: "jump (inputs g) = False" "jumpQueued g = False"
  shows "updateStep g e =
    Inr (finishStep (g\<lparr>gameTime := gameTime g + e, player := land (player g)\<rparr>), e)"
  by (simp add: updateStep_def advance_start [OF p air cell dir e] examineInputs_def inp
        changeOrientation_def Let_def lengthSquared_def dot_def)

lemma update_start:
  assumes p: "inRotation (player g) = False" "orientation (player g) = 0"
      "sVect (player g) = Vect (1 / 2) (1 / 2) (1 / 2)"
      "position (player g) = Vect (3 / 2) (3 / 2) 0"
    and air: "inAir (player g) = False"
    and cell: "lookupCell (tiles g) 1 1 = Some (Tile 1 1)"
    and dir: "direction (inputs g) = ZERO"
    and e: "e \<noteq> 0"
    and inp: "jump (inputs g) = False" "jumpQueued g = False"
  shows "update g e =
    Some (Inr (finishStep (g\<lparr>gameTime := gameTime g + e, player := land (player g)\<rparr>)))"
  by (subst update.simps) (simp add: updateStep_start [OF assms] EPSILON_def)

text \<open>The first frame of a game with the settings of the source returns.\<close>

lemma newGame_player: "player (newGame st inp sd) = newPlayer st"
  by (simp add: newGame_def generateWorld_fields)

lemma newGame_fields:
  "gameOver (newGame st inp sd) = False"
  "gameOverAt (newGame st inp sd) = 0"
  "gameTime (newGame st inp sd) = 0"
  "score (newGame st inp sd) = 0"
  "inputs (newGame st inp sd) = inp"
  "jumpQueued (newGame st inp sd) = False"
  "gameSettings (newGame st inp sd) = st"
  "generator (newGame st inp sd) = \<lparr>generatorSettings = st, seed = sd\<rparr>"
  "viewportStart (newGame st inp sd) = 0"
  "viewportEnd (newGame st inp sd) = rendererTilesOnScreen st"
  by (simp_all add: newGame_def generateWorld_fields)

lemma newGameInputs_fields: "direction newGameInputs = ZERO" "jump newGameInputs = False"
  by (simp_all add: newGameInputs_def)

lemma update_newGame:
  "updateStep (newGame newGameSettings newGameInputs sd) (3 / 200) =
     Inr (finishStep ((newGame newGameSettings newGameInputs sd)
            \<lparr>gameTime := 3 / 200, player := land (newPlayer newGameSettings)\<rparr>), 3 / 200)"
  "update (newGame newGameSettings newGameInputs sd) (3 / 200) =
     Some (Inr (finishStep ((newGame newGameSettings newGameInputs sd)
            \<lparr>gameTime := 3 / 200, player := land (newPlayer newGameSettings)\<rparr>)))"
  using updateStep_start [of "newGame newGameSettings newGameInputs sd" "3 / 200"]
    update_start [of "newGame newGameSettings newGameInputs sd" "3 / 200"]
  by (simp_all add: newGame_player newPlayer_start lookupCell_newGame newGame_fields
        newGameInputs_fields)

lemma newGameSettings_more:
  "gameInitialPosition newGameSettings = - 5 * SQRT2"
  "gameDeathZone newGameSettings = 4"
  "playerInitialPosition newGameSettings = Vect (3 / 2) (3 / 2) 0"
  by (simp_all add: newGameSettings_def)

lemma first_frame_not_over:
  "\<not> gameOver (finishStep ((newGame newGameSettings newGameInputs sd)
            \<lparr>gameTime := 3 / 200, player := land (newPlayer newGameSettings)\<rparr>))"
proof -
  have pos: "position (land (newPlayer newGameSettings)) = Vect (3 / 2) (3 / 2) 0"
    by (simp add: land_def newPlayer_start)
  show ?thesis
    by (simp add: finishStep_def Let_def getCameraPosition_def newGame_fields pos dot_def
          newGameSettings_simps newGameSettings_more SQRT2_def EPSILON_def)
qed

text \<open>A player that has just left the ground falls, and the game is over.\<close>

lemma updateStep_falling:
  assumes p: "inRotation (player g) = False" "inAir (player g) = True" "inAirSince (player g) = gameTime g"
      "velocity (player g) = Vect 0 0 0" "acceleration (player g) = Vect 0 0 (- 30)"
      "vz (position (player g)) = 0"
    and dir: "direction (inputs g) = ZERO"
    and inp: "jump (inputs g) = False" "jumpQueued g = False"
    and over: "gameOver g = False"
  shows "\<exists>g'. updateStep g 1 = Inr (g', 1) \<and> gameOver g' \<and> update g 1 = Some (Inr g')"
proof -
  let ?g1 = "g\<lparr>gameTime := gameTime g + 1\<rparr>"
  let ?ev = "\<lparr>dts = [1], dtRotation = 0, dtFalling = 0, dtOrientation = 0,
       orientationClockwise = False, angle = 0\<rparr>"
  let ?g4 = "?g1\<lparr>player := updateAltitude (player g) (gameTime g + 1)\<rparr>"
  have ev: "nextEvents g (Vect 0 0 0) 1 = ?ev"
    by (simp add: nextEvents_def Let_def p lengthSquared_def dot_def EPSILON_def)
  have motion: "reachOrientation (reachGround (finishRotation ?g1 ?ev 1) ?ev 1) ?ev 1 = ?g4"
    by (simp add: reachOrientation_def reachGround_def finishRotation_def p)
  have z: "vz (position (player ?g4)) = - 15"
    by (simp add: updateAltitude_def Let_def p)
  then have "checkCollisions ?g4 = Inr ?g4"
    by (simp add: checkCollisions_def)
  then have adv: "advance g 1 = Inr (?g4, Vect 0 0 0, ?ev, 1)"
    by (simp add: advance_def dir lengthSquared_def dot_def ZERO_def Let_def ev motion minimum_def)
  have rest: "changeOrientation (examineInputs ?g4) (Vect 0 0 0) ?ev 1 = ?g4"
    by (simp add: changeOrientation_def examineInputs_def inp lengthSquared_def dot_def Let_def)
  have over': "gameOver (finishStep ?g4)"
    using z by (simp add: finishStep_def Let_def over EPSILON_def)
  have st: "updateStep g 1 = Inr (finishStep ?g4, 1)"
    by (simp add: updateStep_def adv rest)
  then have "update g 1 = Some (Inr (finishStep ?g4))"
    by (subst update.simps) (simp add: EPSILON_def)
  with st over' show ?thesis by blast
qed

section \<open>Score and game over\<close>

lemma updateStep_not_gameOver:
  assumes "updateStep g e = Inr (g', dt)" "\<not> gameOver g'"
  shows "\<not> gameOver g \<and> gameOverAt g' = gameOverAt g"
proof -
  from assms(1) obtain h where h: "g' = finishStep h" "gameOver h = gameOver g"
    "gameOverAt h = gameOverAt g"
    by (rule updateStep_cases)
  show ?thesis
    using assms(2) by (auto simp: h finishStep_def Let_def split: if_splits)
qed

lemma run_score: "run g calls = Some (Inr g') \<Longrightarrow> score g \<le> score g'"
proof (induction g calls rule: run.induct)
  case (1 g)
  then show ?case by simp
next
  case (2 g inp elapsedTime calls)
  from "2.prems" obtain g1 where u: "update (g\<lparr>inputs := inp\<rparr>) elapsedTime = Some (Inr g1)"
    and r: "run g1 calls = Some (Inr g')"
    by (auto split: option.splits sum.splits)
  from update_score [OF u] "2.IH" [OF u refl r] show ?case by simp
next
  case (3 g start "end" calls)
  then show ?case by (simp add: generateWorld_fields)
qed

lemma run_gameOver:
  "run g calls = Some (Inr g') \<Longrightarrow> gameOver g \<Longrightarrow> gameOver g' \<and> gameOverAt g' = gameOverAt g"
proof (induction g calls rule: run.induct)
  case (1 g)
  then show ?case by simp
next
  case (2 g inp elapsedTime calls)
  from "2.prems" obtain g1 where u: "update (g\<lparr>inputs := inp\<rparr>) elapsedTime = Some (Inr g1)"
    and r: "run g1 calls = Some (Inr g')"
    by (auto split: option.splits sum.splits)
  from update_gameOver [OF u] "2.prems"(2) have "gameOver g1 \<and> gameOverAt g1 = gameOverAt g"
    by simp
  with "2.IH" [OF u refl r] show ?case by simp
next
  case (3 g start "end" calls)
  then show ?case by (simp add: generateWorld_fields)
qed

text \<open>
  C7. Across any sequence of calls of \<open>update\<close>, with any inputs and any elapsed times (and with
  any calls of \<open>generateWorld\<close> in between), the score does not decrease: the score after the
  calls is at least the score before them.
\<close>

theorem score_never_decreases:
  "run g calls = Some (Inr g') \<Longrightarrow> score g \<le> score g'"
  by (rule run_score)

theorem score_never_decreases_witness:
  "\<exists>g'. run (newGame newGameSettings newGameInputs 0)
           [CallUpdate newGameInputs (3 / 200), CallGenerateWorld 0 20] = Some (Inr g')
        \<and> score (newGame newGameSettings newGameInputs 0) \<le> score g'"
proof -
  let ?g0 = "newGame newGameSettings newGameInputs 0"
  have same: "?g0\<lparr>inputs := newGameInputs\<rparr> = ?g0"
    by (simp add: newGame_def)
  obtain g1 where "update ?g0 (3 / 200) = Some (Inr g1)"
    using update_newGame(2) [of 0] by blast
  then have r: "run ?g0 [CallUpdate newGameInputs (3 / 200), CallGenerateWorld 0 20]
      = Some (Inr (generateWorld g1 0 20))"
    by (simp add: same)
  from score_never_decreases [OF r] r show ?thesis by blast
qed

text \<open>
  C6. Game over is a one-way transition. In a step of \<open>update\<close> the time stamp \<open>gameOverAt\<close> is
  written exactly when the flag goes from false to true, and with the time of that step; a step
  that starts with the flag set leaves the flag set and the time stamp as it is. So across any
  sequence of calls, once \<open>gameOver\<close> is true it stays true and \<open>gameOverAt\<close> keeps its value.
\<close>

theorem gameOver_one_way:
  "(updateStep g e = Inr (g1, dt) \<and> \<not> gameOver g \<and> gameOver g1 \<longrightarrow> gameOverAt g1 = gameTime g1)
   \<and> (updateStep g e = Inr (g1, dt) \<and> \<not> gameOver g1 \<longrightarrow> \<not> gameOver g \<and> gameOverAt g1 = gameOverAt g)
   \<and> (updateStep g e = Inr (g1, dt) \<and> gameOver g \<longrightarrow> gameOver g1 \<and> gameOverAt g1 = gameOverAt g)
   \<and> (run g calls = Some (Inr g') \<and> gameOver g \<longrightarrow> gameOver g' \<and> gameOverAt g' = gameOverAt g)"
  using updateStep_gameOver [of g e g1 dt] updateStep_not_gameOver [of g e g1 dt]
    run_gameOver [of g calls g']
  by blast

theorem gameOver_one_way_witness:
  "(\<exists>g1. updateStep ((newGame newGameSettings newGameInputs 0)
                        \<lparr>player := setInAir (newPlayer newGameSettings) 0\<rparr>) 1 = Inr (g1, 1)
          \<and> \<not> gameOver ((newGame newGameSettings newGameInputs 0)
                        \<lparr>player := setInAir (newPlayer newGameSettings) 0\<rparr>)
          \<and> gameOver g1 \<and> gameOverAt g1 = gameTime g1)
   \<and> (\<exists>g1. updateStep (newGame newGameSettings newGameInputs 0) (3 / 200) = Inr (g1, 3 / 200)
          \<and> \<not> gameOver g1 \<and> gameOverAt g1 = gameOverAt (newGame newGameSettings newGameInputs 0))
   \<and> (\<exists>g'. run ((newGame newGameSettings newGameInputs 0)\<lparr>gameOver := True, gameOverAt := 7\<rparr>)
               [CallUpdate newGameInputs (3 / 200), CallGenerateWorld 0 20] = Some (Inr g')
          \<and> gameOver ((newGame newGameSettings newGameInputs 0)\<lparr>gameOver := True, gameOverAt := 7\<rparr>)
          \<and> gameOver g' \<and> gameOverAt g' = 7)"
proof -
  let ?g0 = "newGame newGameSettings newGameInputs 0"
  let ?gf = "?g0\<lparr>player := setInAir (newPlayer newGameSettings) 0\<rparr>"
  let ?go = "?g0\<lparr>gameOver := True, gameOverAt := 7\<rparr>"
  let ?calls = "[CallUpdate newGameInputs (3 / 200), CallGenerateWorld 0 20]"
  have "\<exists>g1. updateStep ?gf 1 = Inr (g1, 1) \<and> gameOver g1 \<and> update ?gf 1 = Some (Inr g1)"
    by (rule updateStep_falling)
       (simp_all add: setInAir_def newPlayer_start newGame_fields newGameInputs_fields)
  then obtain g1 where f: "updateStep ?gf 1 = Inr (g1, 1)" "gameOver g1"
    by blast
  have nf: "\<not> gameOver ?gf"
    by (simp add: newGame_fields)
  from gameOver_one_way [of ?gf 1 g1 1] f nf
  have A: "\<exists>g1. updateStep ?gf 1 = Inr (g1, 1) \<and> \<not> gameOver ?gf \<and> gameOver g1
             \<and> gameOverAt g1 = gameTime g1"
    by blast
  from gameOver_one_way [of ?g0 "3 / 200" _ "3 / 200"] update_newGame(1) [of 0]
    first_frame_not_over [of 0]
  have B: "\<exists>g1. updateStep ?g0 (3 / 200) = Inr (g1, 3 / 200)
          \<and> \<not> gameOver g1 \<and> gameOverAt g1 = gameOverAt ?g0"
    by blast
  have same: "?go\<lparr>inputs := newGameInputs\<rparr> = ?go"
    by (simp add: newGame_def)
  have "\<exists>g3. update ?go (3 / 200) = Some (Inr g3)"
    using update_start [of ?go "3 / 200"]
    by (simp add: newGame_player newPlayer_start lookupCell_newGame newGame_fields
        newGameInputs_fields)
  then obtain g3 where "update ?go (3 / 200) = Some (Inr g3)"
    by blast
  then have r: "run ?go ?calls = Some (Inr (generateWorld g3 0 20))"
    by (simp add: same)
  from gameOver_one_way [of ?go _ _ _ ?calls "generateWorld g3 0 20"] r
  have C: "\<exists>g'. run ?go ?calls = Some (Inr g')
          \<and> gameOver ?go \<and> gameOver g' \<and> gameOverAt g' = 7"
    by auto
  from A B C show ?thesis by blast
qed

section \<open>update and the world\<close>

lemma sameWorld_refl: "sameWorld a a"
  by (simp add: sameWorld_def)

lemma sameWorld_trans: "sameWorld a b \<Longrightarrow> sameWorld b c \<Longrightarrow> sameWorld a c"
  by (simp add: sameWorld_def)

lemma sameWorld_tiles_eq:
  "tiles b = tiles a \<Longrightarrow> viewportStart b = viewportStart a \<Longrightarrow> viewportEnd b = viewportEnd a \<Longrightarrow>
   generator b = generator a \<Longrightarrow> sameWorld a b"
  by (simp add: sameWorld_def)

lemma lookupCell_setCell:
  "lookupCell (setCell ts x y c) x' y' =
     (if x' = x \<and> y' = y \<and> ts y \<noteq> None then Some c else lookupCell ts x' y')"
  by (cases "ts y") (simp_all add: setCell_def lookupCell_def)

lemma rows_setCell: "(setCell ts x y c y' = None) = (ts y' = None)"
  by (cases "ts y") (simp_all add: setCell_def)

lemma lookupCell_row: "lookupCell ts x y = Some c \<Longrightarrow> ts y \<noteq> None"
  by (cases "ts y") (simp_all add: lookupCell_def)

lemma consumeTile_sameWorld: "sameWorld g (consumeTile xy g)"
proof (cases "lookupCell (tiles g) (fst xy) (snd xy)")
  case None
  then show ?thesis by (simp add: consumeTile_def sameWorld_refl)
next
  case (Some cell)
  show ?thesis
  proof (cases cell)
    case (PowerUpTile cx cy consumed since)
    show ?thesis
    proof (cases consumed)
      case True
      with Some PowerUpTile show ?thesis by (simp add: consumeTile_def sameWorld_refl)
    next
      case False
      with Some PowerUpTile have
        g': "consumeTile xy g = g\<lparr>player := eatPowerUp (player g) (gameTime g),
           tiles := setCell (tiles g) (fst xy) (snd xy) (PowerUpTile cx cy True (gameTime g))\<rparr>"
        by (simp add: consumeTile_def)
      show ?thesis
        using Some PowerUpTile
        by (simp add: g' sameWorld_def rows_setCell lookupCell_setCell)
    qed
  qed (use Some in \<open>simp_all add: consumeTile_def sameWorld_refl\<close>)
qed

lemma fold_consumeTile_sameWorld: "sameWorld g (fold consumeTile ts g)"
proof (induction ts arbitrary: g)
  case Nil
  show ?case by (simp add: sameWorld_refl)
next
  case (Cons xy ts)
  from sameWorld_trans [OF consumeTile_sameWorld Cons.IH] show ?case by simp
qed

lemma checkCollisions_sameWorld:
  assumes "checkCollisions g = Inr g'"
  shows "sameWorld g g'"
proof (cases "vz (position (player g)) = 0")
  case False
  with assms show ?thesis by (simp add: checkCollisions_def sameWorld_refl)
next
  case True
  with assms obtain theseTiles where t: "playerIsOnTheseTiles g = Inr theseTiles"
    by (cases "playerIsOnTheseTiles g") (simp_all add: checkCollisions_def)
  let ?g1 = "g\<lparr>player := land (player g)\<rparr>"
  have 1: "sameWorld g ?g1"
    by (rule sameWorld_tiles_eq) simp_all
  have 2: "sameWorld g (fold consumeTile theseTiles ?g1)"
    using sameWorld_trans [OF 1 fold_consumeTile_sameWorld] .
  have 3: "sameWorld g (g\<lparr>player := setInAir (player g) (gameTime g)\<rparr>)"
    by (rule sameWorld_tiles_eq) simp_all
  have "g' = fold consumeTile theseTiles ?g1 \<or> g' = ?g1
      \<or> g' = g\<lparr>player := setInAir (player g) (gameTime g)\<rparr> \<or> g' = g"
    using assms True t by (simp add: checkCollisions_def Let_def split: if_splits)
  with 1 2 3 sameWorld_refl [of g] show ?thesis
    by blast
qed

lemma advance_sameWorld:
  assumes "advance g e = Inr (g5, dir, ev, dt)"
  shows "sameWorld g g5"
proof -
  let ?g4 = "reachOrientation (reachGround (finishRotation (g\<lparr>gameTime := gameTime g + dt\<rparr>)
        ev dt) ev dt) ev dt"
  from assms have "checkCollisions ?g4 = Inr g5"
    by (auto simp: advance_def Let_def split: sum.splits if_splits)
  then have "sameWorld ?g4 g5"
    by (rule checkCollisions_sameWorld)
  moreover have "sameWorld g ?g4"
    by (rule sameWorld_tiles_eq) (simp_all add: motion_frame)
  ultimately show ?thesis
    using sameWorld_trans by blast
qed

lemma updateStep_sameWorld:
  assumes "updateStep g e = Inr (g', dt)"
  shows "sameWorld g g'"
proof -
  from assms obtain g5 dir ev where
    a: "advance g e = Inr (g5, dir, ev, dt)"
    and g': "g' = finishStep (changeOrientation (examineInputs g5) dir ev dt)"
    by (auto simp: updateStep_def split: sum.splits)
  have "sameWorld g5 g'"
    by (rule sameWorld_tiles_eq)
       (simp_all add: g' finishStep_frame changeOrientation_frame examineInputs_frame)
  with advance_sameWorld [OF a] show ?thesis
    using sameWorld_trans by blast
qed

lemma update_sameWorld:
  assumes "update g e = Some (Inr g')"
  shows "sameWorld g g'"
  using update_relation [where R = sameWorld, OF updateStep_sameWorld sameWorld_trans assms]
  by simp

lemma unconsumed_coords: "cellX (unconsumed c) = cellX c" "cellY (unconsumed c) = cellY c"
  by (cases c; simp)+

lemma sameWorld_lookup:
  assumes "sameWorld a b" "lookupCell (tiles b) x y = Some c"
  obtains c' where "lookupCell (tiles a) x y = Some c'" "unconsumed c' = unconsumed c"
proof -
  from assms(1) have "map_option unconsumed (lookupCell (tiles b) x y)
      = map_option unconsumed (lookupCell (tiles a) x y)"
    by (simp add: sameWorld_def)
  with assms(2) have "map_option unconsumed (lookupCell (tiles a) x y) = Some (unconsumed c)"
    by simp
  then show ?thesis
    using that by (cases "lookupCell (tiles a) x y") auto
qed

lemma sameWorld_cellsNonNegative:
  assumes "sameWorld a b" "cellsNonNegative (tiles a)"
  shows "cellsNonNegative (tiles b)"
  unfolding cellsNonNegative_def
proof (intro conjI allI impI)
  fix y assume "tiles b y \<noteq> None"
  with assms(1) have "tiles a y \<noteq> None"
    by (simp add: sameWorld_def)
  with assms(2) show "0 \<le> y"
    by (simp add: cellsNonNegative_def)
next
  fix x y c assume c: "lookupCell (tiles b) x y = Some c"
  from sameWorld_lookup [OF assms(1) c] obtain c' where
    c': "lookupCell (tiles a) x y = Some c'" "unconsumed c' = unconsumed c"
    by blast
  from assms(2) c'(1) have "0 \<le> x \<and> 0 \<le> y \<and> cellX c' = x \<and> cellY c' = y"
    by (simp add: cellsNonNegative_def)
  moreover have "cellX c = cellX c'" "cellY c = cellY c'"
    using unconsumed_coords [of c] unconsumed_coords [of c'] c'(2) by simp_all
  ultimately show "0 \<le> x" "0 \<le> y" "cellX c = x" "cellY c = y"
    by simp_all
qed

section \<open>Invariants of a run\<close>

lemma run_invariant:
  assumes inp: "\<And>g i. I g \<Longrightarrow> I (g\<lparr>inputs := i\<rparr>)"
    and upd: "\<And>g e g'. I g \<Longrightarrow> update g e = Some (Inr g') \<Longrightarrow> I g'"
    and gen: "\<And>g s e. I g \<Longrightarrow> I (generateWorld g s e)"
  shows "run g calls = Some (Inr g') \<Longrightarrow> I g \<Longrightarrow> I g'"
proof (induction g calls rule: run.induct)
  case (1 g)
  then show ?case by simp
next
  case (2 g i elapsedTime calls)
  from "2.prems" obtain g1 where u: "update (g\<lparr>inputs := i\<rparr>) elapsedTime = Some (Inr g1)"
    and r: "run g1 calls = Some (Inr g')"
    by (auto split: option.splits sum.splits)
  from upd [OF inp [OF "2.prems"(2)] u] have "I g1" .
  with "2.IH" [OF u refl r] show ?case by simp
next
  case (3 g start "end" calls)
  from "3.IH" [OF _ gen [OF "3.prems"(2)]] "3.prems"(1) show ?case by simp
qed

lemma cellXY_newCell: "cellX (newCell gen x y) = x" "cellY (newCell gen x y) = y"
  by (simp_all add: newCell_def)

lemma generateWorld_cellsNonNegative:
  assumes "cellsNonNegative (tiles g)"
  shows "cellsNonNegative (tiles (generateWorld g start end))"
  unfolding cellsNonNegative_def
proof (intro conjI allI impI)
  fix y assume "tiles (generateWorld g start end) y \<noteq> None"
  then have "max 0 start \<le> y \<or> tiles g y \<noteq> None"
    using rows_generateWorld [of g start "end" y] by blast
  with assms show "0 \<le> y"
    by (auto simp: cellsNonNegative_def)
next
  fix x y c assume c: "lookupCell (tiles (generateWorld g start end)) x y = Some c"
  then have "(c = newCell (generator g) x y \<and> max 0 start \<le> x \<and> max 0 start \<le> y)
      \<or> lookupCell (tiles g) x y = Some c"
    by (auto simp: lookupCell_generateWorld Let_def split: if_splits)
  with assms show "0 \<le> x" "0 \<le> y" "cellX c = x" "cellY c = y"
    by (auto simp: cellsNonNegative_def cellXY_newCell)
qed

lemma newGame_cellsNonNegative: "cellsNonNegative (tiles (newGame st inp sd))"
proof -
  have "cellsNonNegative (Map.empty(1 \<mapsto> Map.empty(1 \<mapsto> Tile 1 1)))"
    by (auto simp: cellsNonNegative_def lookupCell_def split: if_splits)
  then show ?thesis
    unfolding newGame_def by (simp add: generateWorld_cellsNonNegative)
qed

lemma update_cellsNonNegative:
  "update g e = Some (Inr g') \<Longrightarrow> cellsNonNegative (tiles g) \<Longrightarrow> cellsNonNegative (tiles g')"
  using sameWorld_cellsNonNegative update_sameWorld by blast

lemma update_viewportStart: "update g e = Some (Inr g') \<Longrightarrow> viewportStart g' = viewportStart g"
  using update_sameWorld [of g e g'] by (simp add: sameWorld_def)

lemma run_nonNegative:
  assumes "run g calls = Some (Inr g')" "0 \<le> viewportStart g \<and> cellsNonNegative (tiles g)"
  shows "0 \<le> viewportStart g' \<and> cellsNonNegative (tiles g')"
proof (rule run_invariant [where I = "\<lambda>g. 0 \<le> viewportStart g \<and> cellsNonNegative (tiles g)",
      OF _ _ _ assms])
  show "\<And>g i. 0 \<le> viewportStart g \<and> cellsNonNegative (tiles g) \<Longrightarrow>
      0 \<le> viewportStart (g\<lparr>inputs := i\<rparr>) \<and> cellsNonNegative (tiles (g\<lparr>inputs := i\<rparr>))"
    by simp
  show "\<And>g e g'. 0 \<le> viewportStart g \<and> cellsNonNegative (tiles g) \<Longrightarrow>
      update g e = Some (Inr g') \<Longrightarrow> 0 \<le> viewportStart g' \<and> cellsNonNegative (tiles g')"
    using update_cellsNonNegative update_viewportStart by simp
  show "\<And>g s e. 0 \<le> viewportStart g \<and> cellsNonNegative (tiles g) \<Longrightarrow>
      0 \<le> viewportStart (generateWorld g s e) \<and> cellsNonNegative (tiles (generateWorld g s e))"
    by (simp add: generateWorld_fields generateWorld_cellsNonNegative)
qed

text \<open>
  C10. \<open>viewportStart\<close> is not negative after the constructor and after every call of
  \<open>generateWorld\<close>, which takes a negative \<open>start\<close> for 0; a cell that a call adds to the
  world has no negative coordinate, and in every state that a run of the game reaches from the
  constructor no row and no cell of the world has a negative coordinate.
\<close>

theorem viewportStart_never_negative:
  "0 \<le> viewportStart (newGame st inp sd)
   \<and> viewportStart (generateWorld g start end) = max 0 start
   \<and> (start < 0 \<longrightarrow> generateWorld g start end = generateWorld g 0 end)
   \<and> (lookupCell (tiles (generateWorld g start end)) x y = Some c
        \<and> lookupCell (tiles g) x y \<noteq> Some c \<longrightarrow> 0 \<le> x \<and> 0 \<le> y)
   \<and> (run (newGame st inp sd) calls = Some (Inr g')
        \<longrightarrow> 0 \<le> viewportStart g' \<and> cellsNonNegative (tiles g'))"
proof -
  have 1: "0 \<le> viewportStart (newGame st inp sd)"
    by (simp add: newGame_fields)
  have 2: "viewportStart (generateWorld g start end) = max 0 start"
    by (simp add: generateWorld_fields)
  have 3: "start < 0 \<longrightarrow> generateWorld g start end = generateWorld g 0 end"
    by (simp add: generateWorld_def)
  have 4: "lookupCell (tiles (generateWorld g start end)) x y = Some c
        \<and> lookupCell (tiles g) x y \<noteq> Some c \<longrightarrow> 0 \<le> x \<and> 0 \<le> y"
    by (auto simp: lookupCell_generateWorld Let_def split: if_splits)
  have 5: "run (newGame st inp sd) calls = Some (Inr g')
        \<longrightarrow> 0 \<le> viewportStart g' \<and> cellsNonNegative (tiles g')"
    using run_nonNegative [of "newGame st inp sd" calls g'] 1 newGame_cellsNonNegative [of st inp sd]
    by blast
  from 1 2 3 4 5 show ?thesis by blast
qed

theorem viewportStart_never_negative_witness:
  "(- 3 :: int) < 0
   \<and> generateWorld (newGame newGameSettings newGameInputs 0) (- 3) 20
       = generateWorld (newGame newGameSettings newGameInputs 0) 0 20
   \<and> viewportStart (generateWorld (newGame newGameSettings newGameInputs 0) (- 3) 20) = 0
   \<and> lookupCell (tiles (generateWorld (newGame newGameSettings newGameInputs 0) (- 3) 20)) 16 17
       = Some (newCell \<lparr>generatorSettings = newGameSettings, seed = 0\<rparr> 16 17)
   \<and> lookupCell (tiles (newGame newGameSettings newGameInputs 0)) 16 17
       \<noteq> Some (newCell \<lparr>generatorSettings = newGameSettings, seed = 0\<rparr> 16 17)
   \<and> (\<exists>g'. run (newGame newGameSettings newGameInputs 0)
              [CallUpdate newGameInputs (3 / 200), CallGenerateWorld (- 3) 20] = Some (Inr g')
          \<and> 0 \<le> viewportStart g' \<and> cellsNonNegative (tiles g'))"
proof -
  let ?g0 = "newGame newGameSettings newGameInputs 0"
  let ?c = "newCell \<lparr>generatorSettings = newGameSettings, seed = 0\<rparr> 16 17"
  have tos: "rendererTilesOnScreen newGameSettings = 15"
    by (simp add: newGameSettings_def)
  have old: "lookupCell (tiles ?g0) 16 17 = None"
    by (simp add: lookupCell_newGame tos)
  have new: "lookupCell (tiles (generateWorld ?g0 (- 3) 20)) 16 17 = Some ?c"
    by (simp add: lookupCell_generateWorld Let_def old newGame_fields tos)
  have same: "?g0\<lparr>inputs := newGameInputs\<rparr> = ?g0"
    by (simp add: newGame_def)
  obtain g1 where "update ?g0 (3 / 200) = Some (Inr g1)"
    using update_newGame(2) [of 0] by blast
  then have r: "run ?g0 [CallUpdate newGameInputs (3 / 200), CallGenerateWorld (- 3) 20]
      = Some (Inr (generateWorld g1 (- 3) 20))"
    by (simp add: same)
  from viewportStart_never_negative [of newGameSettings newGameInputs 0 ?g0 "- 3" 20 16 17 ?c
      "[CallUpdate newGameInputs (3 / 200), CallGenerateWorld (- 3) 20]" "generateWorld g1 (- 3) 20"]
    old new r
  show ?thesis by auto
qed

section \<open>The window of the world\<close>

text \<open>
  C5, as stated, fails: \<open>generateWorld\<close> deletes whole rows \<open>y\<close>, and nothing else. In the world
  of a new game, after \<open>generateWorld(2, 15)\<close> the cell with \<open>x = 0\<close> of the row \<open>y = 5\<close> is still
  there, behind the trailing edge \<open>viewportStart = 2\<close>.
\<close>

theorem cells_behind_trailing_edge_remain:
  "viewportStart (newGame newGameSettings newGameInputs 0) < max 0 2
   \<and> viewportStart (generateWorld (newGame newGameSettings newGameInputs 0) 2 15) = 2
   \<and> lookupCell (tiles (generateWorld (newGame newGameSettings newGameInputs 0) 2 15)) 0 5
       = Some (newCell \<lparr>generatorSettings = newGameSettings, seed = 0\<rparr> 0 5)
   \<and> \<not> cellsInsideViewport (generateWorld (newGame newGameSettings newGameInputs 0) 2 15)"
proof -
  let ?g0 = "newGame newGameSettings newGameInputs 0"
  have tos: "rendererTilesOnScreen newGameSettings = 15"
    by (simp add: newGameSettings_def)
  have old: "lookupCell (tiles ?g0) 0 5 = Some (newCell \<lparr>generatorSettings = newGameSettings, seed = 0\<rparr> 0 5)"
    by (simp add: lookupCell_newGame tos)
  have new: "lookupCell (tiles (generateWorld ?g0 2 15)) 0 5
      = Some (newCell \<lparr>generatorSettings = newGameSettings, seed = 0\<rparr> 0 5)"
    by (simp add: lookupCell_generateWorld Let_def old newGame_fields tos)
  have vs: "viewportStart (generateWorld ?g0 2 15) = 2"
    by (simp add: generateWorld_fields)
  have "\<not> cellsInsideViewport (generateWorld ?g0 2 15)"
  proof
    assume "cellsInsideViewport (generateWorld ?g0 2 15)"
    then have "lookupCell (tiles (generateWorld ?g0 2 15)) 0 5 \<noteq> None \<longrightarrow>
        viewportStart (generateWorld ?g0 2 15) \<le> 0"
      unfolding cellsInsideViewport_def by blast
    with new vs show False by simp
  qed
  with new vs show ?thesis
    by (simp add: newGame_fields)
qed

text \<open>
  C5, amended. For every call \<open>generateWorld(start, end)\<close> in which \<open>max(0, start)\<close> exceeds the
  previous \<open>viewportStart\<close>: the rows \<open>y\<close> from the previous \<open>viewportStart\<close> up to, and without,
  \<open>max(0, start)\<close> are evicted; every cell of any other row is kept as it is, whatever its \<open>x\<close>;
  and when no row lay below the previous \<open>viewportStart\<close>, every cell that remains has its \<open>y\<close>
  at or above the new \<open>viewportStart\<close>. No cell is evicted when \<open>max(0, start)\<close> does not exceed
  the previous \<open>viewportStart\<close>.
\<close>

theorem generateWorld_evicts_rows:
  "(viewportStart g < max 0 start \<longrightarrow>
      (\<forall>y. viewportStart g \<le> y \<and> y < max 0 start \<longrightarrow> tiles (generateWorld g start end) y = None)
      \<and> (\<forall>x y c. lookupCell (tiles g) x y = Some c \<and> \<not> (viewportStart g \<le> y \<and> y < max 0 start)
            \<longrightarrow> lookupCell (tiles (generateWorld g start end)) x y = Some c)
      \<and> ((\<forall>y. tiles g y \<noteq> None \<longrightarrow> viewportStart g \<le> y) \<longrightarrow>
           (\<forall>x y. lookupCell (tiles (generateWorld g start end)) x y \<noteq> None
              \<longrightarrow> viewportStart (generateWorld g start end) \<le> y)))
   \<and> (max 0 start \<le> viewportStart g \<longrightarrow>
        (\<forall>x y c. lookupCell (tiles g) x y = Some c
            \<longrightarrow> lookupCell (tiles (generateWorld g start end)) x y = Some c))"
proof -
  let ?g' = "generateWorld g start end"
  have rows: "tiles ?g' y = None" if "viewportStart g \<le> y" "y < max 0 start" for y
    using rows_generateWorld [of g start "end" y] that by auto
  have keep: "lookupCell (tiles ?g') x y = Some c"
    if "lookupCell (tiles g) x y = Some c" "\<not> (viewportStart g \<le> y \<and> y < max 0 start)" for x y c
    using that by (auto simp: lookupCell_generateWorld Let_def)
  have above: "viewportStart ?g' \<le> y"
    if inv: "\<forall>y. tiles g y \<noteq> None \<longrightarrow> viewportStart g \<le> y"
      and lt: "viewportStart g < max 0 start"
      and c: "lookupCell (tiles ?g') x y \<noteq> None" for x y
  proof -
    from c have "tiles ?g' y \<noteq> None"
      using lookupCell_row [of "tiles ?g'" x y] by auto
    then have "max 0 start \<le> y \<or> (tiles g y \<noteq> None \<and> \<not> (viewportStart g \<le> y \<and> y < max 0 start))"
      using rows_generateWorld [of g start "end" y] by blast
    with inv show ?thesis
      by (auto simp: generateWorld_fields)
  qed
  have keep_all: "lookupCell (tiles ?g') x y = Some c"
    if "max 0 start \<le> viewportStart g" "lookupCell (tiles g) x y = Some c" for x y c
    using that by (intro keep) auto
  from rows keep above keep_all show ?thesis
    by blast
qed

theorem generateWorld_evicts_rows_witness:
  "viewportStart (newGame newGameSettings newGameInputs 0) < max 0 2
   \<and> tiles (generateWorld (newGame newGameSettings newGameInputs 0) 2 15) 1 = None
   \<and> lookupCell (tiles (newGame newGameSettings newGameInputs 0)) 0 5
       = Some (newCell \<lparr>generatorSettings = newGameSettings, seed = 0\<rparr> 0 5)
   \<and> lookupCell (tiles (generateWorld (newGame newGameSettings newGameInputs 0) 2 15)) 0 5
       = Some (newCell \<lparr>generatorSettings = newGameSettings, seed = 0\<rparr> 0 5)
   \<and> viewportStart (generateWorld (newGame newGameSettings newGameInputs 0) 2 15) \<le> 5
   \<and> max 0 (- 3) \<le> viewportStart (newGame newGameSettings newGameInputs 0)
   \<and> lookupCell (tiles (newGame newGameSettings newGameInputs 0)) 1 1 = Some (Tile 1 1)
   \<and> lookupCell (tiles (generateWorld (newGame newGameSettings newGameInputs 0) (- 3) 20)) 1 1
       = Some (Tile 1 1)"
proof -
  let ?g0 = "newGame newGameSettings newGameInputs 0"
  let ?c = "newCell \<lparr>generatorSettings = newGameSettings, seed = 0\<rparr> 0 5"
  have tos: "rendererTilesOnScreen newGameSettings = 15"
    by (simp add: newGameSettings_def)
  have vs: "viewportStart ?g0 < max 0 2" "max 0 (- 3) \<le> viewportStart ?g0"
    by (simp_all add: newGame_fields)
  have old: "lookupCell (tiles ?g0) 0 5 = Some ?c" "lookupCell (tiles ?g0) 1 1 = Some (Tile 1 1)"
    by (simp_all add: lookupCell_newGame tos)
  have rows: "\<forall>y. tiles ?g0 y \<noteq> None \<longrightarrow> viewportStart ?g0 \<le> y"
    using newGame_cellsNonNegative [of newGameSettings newGameInputs 0]
    by (simp add: cellsNonNegative_def newGame_fields)
  from generateWorld_evicts_rows [of ?g0 2 15] vs(1)
  have A: "\<forall>y. viewportStart ?g0 \<le> y \<and> y < max 0 2 \<longrightarrow> tiles (generateWorld ?g0 2 15) y = None"
    and B: "\<forall>x y c. lookupCell (tiles ?g0) x y = Some c \<and> \<not> (viewportStart ?g0 \<le> y \<and> y < max 0 2)
            \<longrightarrow> lookupCell (tiles (generateWorld ?g0 2 15)) x y = Some c"
    and C: "(\<forall>y. tiles ?g0 y \<noteq> None \<longrightarrow> viewportStart ?g0 \<le> y) \<longrightarrow>
           (\<forall>x y. lookupCell (tiles (generateWorld ?g0 2 15)) x y \<noteq> None
              \<longrightarrow> viewportStart (generateWorld ?g0 2 15) \<le> y)"
    by blast+
  from A have 1: "tiles (generateWorld ?g0 2 15) 1 = None"
    by (simp add: newGame_fields)
  from B old(1) have 2: "lookupCell (tiles (generateWorld ?g0 2 15)) 0 5 = Some ?c"
    by (simp add: newGame_fields)
  from C rows have "\<forall>x y. lookupCell (tiles (generateWorld ?g0 2 15)) x y \<noteq> None
              \<longrightarrow> viewportStart (generateWorld ?g0 2 15) \<le> y"
    by blast
  with 2 have 3: "viewportStart (generateWorld ?g0 2 15) \<le> 5"
    by (metis option.distinct(1))
  from generateWorld_evicts_rows [of ?g0 "- 3" 20] vs(2) old(2)
  have 4: "lookupCell (tiles (generateWorld ?g0 (- 3) 20)) 1 1 = Some (Tile 1 1)"
    by blast
  from 1 2 3 4 vs old show ?thesis
    by simp
qed

section \<open>The tile under the starting position\<close>

lemma instanceofPowerUpTile_unconsumed:
  "instanceofPowerUpTile (unconsumed c) = instanceofPowerUpTile c"
  by (cases c) simp_all

lemma unconsumed_Tile: "unconsumed c = Tile cx cy \<Longrightarrow> c = Tile cx cy"
  by (cases c) simp_all

lemma newCell_1_1_no_powerUp:
  assumes "generatorSettings gen = newGameSettings"
  shows "\<not> instanceofPowerUpTile (newCell gen 1 1)"
  using isPowerUp_1_1 [OF assms] by (simp add: newCell_def)

lemma lookupCell_generateWorld_1_1:
  "lookupCell (tiles (generateWorld g start end)) 1 1 =
     (if viewportEnd g < end \<and> max 0 start \<le> 1 \<and> 1 \<le> end \<and> viewportEnd g \<le> 1
         \<and> (viewportStart g \<le> 1 \<and> 1 < max 0 start \<or> lookupCell (tiles g) 1 1 = None)
      then Some (newCell (generator g) 1 1)
      else if viewportStart g \<le> 1 \<and> 1 < max 0 start then None
      else lookupCell (tiles g) 1 1)"
  by (auto simp: lookupCell_generateWorld Let_def)

lemma update_keeps_Tile:
  assumes "update g e = Some (Inr g')" "lookupCell (tiles g) x y = Some (Tile cx cy)"
  shows "lookupCell (tiles g') x y = Some (Tile cx cy)"
proof -
  from update_sameWorld [OF assms(1)]
  have "map_option unconsumed (lookupCell (tiles g') x y)
      = map_option unconsumed (lookupCell (tiles g) x y)"
    by (simp add: sameWorld_def)
  with assms(2) obtain c where "lookupCell (tiles g') x y = Some c" "unconsumed c = Tile cx cy"
    by (cases "lookupCell (tiles g') x y") auto
  then show ?thesis
    using unconsumed_Tile by blast
qed

lemma run_no_powerUp_1_1:
  assumes "run g calls = Some (Inr g')"
    and "generatorSettings (generator g) = newGameSettings
         \<and> (\<forall>c. lookupCell (tiles g) 1 1 = Some c \<longrightarrow> \<not> instanceofPowerUpTile c)"
  shows "generatorSettings (generator g') = newGameSettings
         \<and> (\<forall>c. lookupCell (tiles g') 1 1 = Some c \<longrightarrow> \<not> instanceofPowerUpTile c)"
proof (rule run_invariant [where I = "\<lambda>g. generatorSettings (generator g) = newGameSettings
         \<and> (\<forall>c. lookupCell (tiles g) 1 1 = Some c \<longrightarrow> \<not> instanceofPowerUpTile c)", OF _ _ _ assms])
  fix g :: Game and i
  assume "generatorSettings (generator g) = newGameSettings
         \<and> (\<forall>c. lookupCell (tiles g) 1 1 = Some c \<longrightarrow> \<not> instanceofPowerUpTile c)"
  then show "generatorSettings (generator (g\<lparr>inputs := i\<rparr>)) = newGameSettings
         \<and> (\<forall>c. lookupCell (tiles (g\<lparr>inputs := i\<rparr>)) 1 1 = Some c \<longrightarrow> \<not> instanceofPowerUpTile c)"
    by simp
next
  fix g e g'
  assume I: "generatorSettings (generator g) = newGameSettings
         \<and> (\<forall>c. lookupCell (tiles g) 1 1 = Some c \<longrightarrow> \<not> instanceofPowerUpTile c)"
    and u: "update g e = Some (Inr g')"
  from update_sameWorld [OF u] have sw: "sameWorld g g'" .
  have "\<not> instanceofPowerUpTile c" if "lookupCell (tiles g') 1 1 = Some c" for c
  proof -
    from sameWorld_lookup [OF sw that] obtain c' where
      "lookupCell (tiles g) 1 1 = Some c'" "unconsumed c' = unconsumed c"
      by blast
    with I show ?thesis
      using instanceofPowerUpTile_unconsumed [of c] instanceofPowerUpTile_unconsumed [of c']
      by auto
  qed
  with I sw show "generatorSettings (generator g') = newGameSettings
         \<and> (\<forall>c. lookupCell (tiles g') 1 1 = Some c \<longrightarrow> \<not> instanceofPowerUpTile c)"
    by (simp add: sameWorld_def)
next
  fix g :: Game and s e
  assume I: "generatorSettings (generator g) = newGameSettings
         \<and> (\<forall>c. lookupCell (tiles g) 1 1 = Some c \<longrightarrow> \<not> instanceofPowerUpTile c)"
  then show "generatorSettings (generator (generateWorld g s e)) = newGameSettings
         \<and> (\<forall>c. lookupCell (tiles (generateWorld g s e)) 1 1 = Some c \<longrightarrow> \<not> instanceofPowerUpTile c)"
    using newCell_1_1_no_powerUp [of "generator g"]
    by (auto simp: generateWorld_fields lookupCell_generateWorld_1_1 split: if_splits)
qed

lemma playerIsOnTheseTiles_newGame:
  "playerIsOnTheseTiles (newGame newGameSettings inp sd) = Inr [(1, 1)]"
  by (rule playerIsOnTheseTiles_start)
     (simp_all add: newGame_player newPlayer_start lookupCell_newGame)

lemma run_keeps_tile_1_1:
  "run g calls = Some (Inr g') \<Longrightarrow> list_all (windowKeepsRow 1) calls \<Longrightarrow>
   lookupCell (tiles g) 1 1 = Some (Tile 1 1) \<Longrightarrow> lookupCell (tiles g') 1 1 = Some (Tile 1 1)"
proof (induction g calls rule: run.induct)
  case (1 g)
  then show ?case by simp
next
  case (2 g i elapsedTime calls)
  from "2.prems"(1) obtain g1 where u: "update (g\<lparr>inputs := i\<rparr>) elapsedTime = Some (Inr g1)"
    and r: "run g1 calls = Some (Inr g')"
    by (auto split: option.splits sum.splits)
  from update_keeps_Tile [OF u] "2.prems"(3) have "lookupCell (tiles g1) 1 1 = Some (Tile 1 1)"
    by simp
  with "2.IH" [OF u refl r] "2.prems"(2) show ?case by simp
next
  case (3 g start "end" calls)
  from "3.prems"(2) have s: "start \<le> 1" and rest: "list_all (windowKeepsRow 1) calls"
    by simp_all
  from s have "\<not> 1 < max 0 start"
    by simp
  with "3.prems"(3) have "lookupCell (tiles (generateWorld g start end)) 1 1 = Some (Tile 1 1)"
    by (simp add: lookupCell_generateWorld_1_1)
  with "3.IH" [OF _ rest] "3.prems"(1) show ?case by simp
qed

lemma playerIsOnTheseTiles_nothing:
  assumes "inRotation (player g) = False" "orientation (player g) = 0"
    "sVect (player g) = Vect (1 / 2) (1 / 2) (1 / 2)"
    "position (player g) = Vect (3 / 2) (3 / 2) 0"
    and "lookupCell (tiles g) 1 1 = None"
  shows "playerIsOnTheseTiles g = Inr []"
  by (simp add: playerIsOnTheseTiles_def getCollisionPath_start [OF assms(1-4)] vertexStep_def
        hasTile_def assms(5))

text \<open>
  C9, as stated, fails. A call \<open>generateWorld(2, 15)\<close> on a new game deletes the row 1 with the
  tile at \<open>(1, 1)\<close>: the player, still at its initial position, is on no tile. When the window
  comes back, the cell at \<open>(1, 1)\<close> is the one that the generator makes, or the place stays
  empty inside the window.
\<close>

theorem initial_tile_is_evicted:
  "run (newGame newGameSettings newGameInputs 0) [CallGenerateWorld 2 15]
     = Some (Inr (generateWorld (newGame newGameSettings newGameInputs 0) 2 15))
   \<and> lookupCell (tiles (generateWorld (newGame newGameSettings newGameInputs 0) 2 15)) 1 1 = None
   \<and> position (player (generateWorld (newGame newGameSettings newGameInputs 0) 2 15))
       = playerInitialPosition newGameSettings
   \<and> playerIsOnTheseTiles (generateWorld (newGame newGameSettings newGameInputs 0) 2 15) = Inr []
   \<and> lookupCell (tiles (generateWorld (generateWorld (newGame newGameSettings newGameInputs 0) 2 1) 0 5)) 1 1
       = Some (newCell \<lparr>generatorSettings = newGameSettings, seed = 0\<rparr> 1 1)
   \<and> viewportStart (generateWorld (generateWorld (newGame newGameSettings newGameInputs 0) 2 15) 0 15) = 0
   \<and> viewportEnd (generateWorld (generateWorld (newGame newGameSettings newGameInputs 0) 2 15) 0 15) = 15
   \<and> lookupCell (tiles (generateWorld (generateWorld (newGame newGameSettings newGameInputs 0) 2 15) 0 15)) 1 1
       = None"
proof -
  let ?g0 = "newGame newGameSettings newGameInputs 0"
  have f: "viewportStart ?g0 = 0" "viewportEnd ?g0 = 15"
    "generator ?g0 = \<lparr>generatorSettings = newGameSettings, seed = 0\<rparr>"
    by (simp_all add: newGame_fields newGameSettings_def)
  have c0: "lookupCell (tiles ?g0) 1 1 = Some (Tile 1 1)"
    by (simp add: lookupCell_newGame)
  have 1: "lookupCell (tiles (generateWorld ?g0 2 15)) 1 1 = None"
    by (simp add: lookupCell_generateWorld_1_1 f)
  have p: "player (generateWorld ?g0 2 15) = newPlayer newGameSettings"
    by (simp add: generateWorld_fields newGame_player)
  have 2: "playerIsOnTheseTiles (generateWorld ?g0 2 15) = Inr []"
    by (rule playerIsOnTheseTiles_nothing) (simp_all add: p newPlayer_start 1)
  have 3: "position (player (generateWorld ?g0 2 15)) = playerInitialPosition newGameSettings"
    by (simp add: p newPlayer_start newGameSettings_more)
  have a: "lookupCell (tiles (generateWorld ?g0 2 1)) 1 1 = None"
    by (simp add: lookupCell_generateWorld_1_1 f)
  have 4: "lookupCell (tiles (generateWorld (generateWorld ?g0 2 1) 0 5)) 1 1
      = Some (newCell \<lparr>generatorSettings = newGameSettings, seed = 0\<rparr> 1 1)"
    by (simp add: lookupCell_generateWorld_1_1 generateWorld_fields a f)
  have 5: "lookupCell (tiles (generateWorld (generateWorld ?g0 2 15) 0 15)) 1 1 = None"
    by (simp add: lookupCell_generateWorld_1_1 [of "generateWorld ?g0 2 15"] generateWorld_fields 1)
  from 1 2 3 4 5 show ?thesis
    by (simp add: generateWorld_fields)
qed

text \<open>
  C9, amended. Whatever the settings and the seed, the world of a new game has the plain tile
  \<open>Tile(1, 1)\<close> at \<open>(1, 1)\<close>, and with the settings of the source the player of a new game stands
  on it. A call of \<open>generateWorld\<close> leaves the cell at \<open>(1, 1)\<close> as it is, unless the window moves
  past the row 1, which deletes the cell, or the place is empty and the call reaches it, which
  puts the cell of the generator there. \<open>update\<close> leaves the plain tile a plain tile. On a run
  of the game in which no call of \<open>generateWorld\<close> has a \<open>start\<close> beyond 1 the cell at \<open>(1, 1)\<close>
  is \<open>Tile(1, 1)\<close> in every state, and a player at the initial position stands on it. With the
  settings of the source, in no state that any run of the game reaches is the cell at \<open>(1, 1)\<close>
  a power-up, so none is ever consumed there.
\<close>

theorem initial_tile_until_evicted:
  "lookupCell (tiles (newGame st inp sd)) 1 1 = Some (Tile 1 1)
   \<and> playerIsOnTheseTiles (newGame newGameSettings inp sd) = Inr [(1, 1)]
   \<and> lookupCell (tiles (generateWorld g start end)) 1 1
       = (if viewportEnd g < end \<and> max 0 start \<le> 1 \<and> 1 \<le> end \<and> viewportEnd g \<le> 1
             \<and> (viewportStart g \<le> 1 \<and> 1 < max 0 start \<or> lookupCell (tiles g) 1 1 = None)
          then Some (newCell (generator g) 1 1)
          else if viewportStart g \<le> 1 \<and> 1 < max 0 start then None
          else lookupCell (tiles g) 1 1)
   \<and> (update g e = Some (Inr g1) \<and> lookupCell (tiles g) 1 1 = Some (Tile 1 1) \<longrightarrow>
        lookupCell (tiles g1) 1 1 = Some (Tile 1 1))
   \<and> (run (newGame st inp sd) calls = Some (Inr g') \<and> list_all (windowKeepsRow 1) calls \<longrightarrow>
        lookupCell (tiles g') 1 1 = Some (Tile 1 1)
        \<and> playerIsOnTheseTiles (g'\<lparr>player := newPlayer newGameSettings\<rparr>) = Inr [(1, 1)])
   \<and> (run (newGame newGameSettings inp sd) calls = Some (Inr g') \<and> lookupCell (tiles g') 1 1 = Some c'
        \<longrightarrow> \<not> instanceofPowerUpTile c')"
proof -
  have 1: "lookupCell (tiles (newGame st inp sd)) 1 1 = Some (Tile 1 1)" for st
    by (simp add: lookupCell_newGame)
  note 2 = playerIsOnTheseTiles_newGame [of inp sd]
  note 3 = lookupCell_generateWorld_1_1 [of g start "end"]
  have 4: "update g e = Some (Inr g1) \<and> lookupCell (tiles g) 1 1 = Some (Tile 1 1) \<longrightarrow>
        lookupCell (tiles g1) 1 1 = Some (Tile 1 1)"
    using update_keeps_Tile by blast
  have 5: "lookupCell (tiles g') 1 1 = Some (Tile 1 1)
        \<and> playerIsOnTheseTiles (g'\<lparr>player := newPlayer newGameSettings\<rparr>) = Inr [(1, 1)]"
    if r: "run (newGame st inp sd) calls = Some (Inr g')" and k: "list_all (windowKeepsRow 1) calls"
  proof -
    from run_keeps_tile_1_1 [OF r k 1] have c: "lookupCell (tiles g') 1 1 = Some (Tile 1 1)" .
    have "playerIsOnTheseTiles (g'\<lparr>player := newPlayer newGameSettings\<rparr>) = Inr [(1, 1)]"
      by (rule playerIsOnTheseTiles_start) (simp_all add: newPlayer_start c)
    with c show ?thesis by simp
  qed
  have 6: "run (newGame newGameSettings inp sd) calls = Some (Inr g') \<and> lookupCell (tiles g') 1 1 = Some c'
        \<longrightarrow> \<not> instanceofPowerUpTile c'"
    using run_no_powerUp_1_1 [of "newGame newGameSettings inp sd" calls g'] 1 [of newGameSettings]
    by (auto simp: newGame_fields)
  from 1 2 3 4 5 6 show ?thesis
    by blast
qed

theorem initial_tile_until_evicted_witness:
  "lookupCell (tiles (newGame newGameSettings newGameInputs 0)) 1 1 = Some (Tile 1 1)
   \<and> lookupCell (tiles (generateWorld (newGame newGameSettings newGameInputs 0) 0 20)) 1 1
        = Some (Tile 1 1)
   \<and> lookupCell (tiles (generateWorld (newGame newGameSettings newGameInputs 0) 2 20)) 1 1 = None
   \<and> (\<exists>g1. update (newGame newGameSettings newGameInputs 0) (3 / 200) = Some (Inr g1)
          \<and> lookupCell (tiles g1) 1 1 = Some (Tile 1 1))
   \<and> list_all (windowKeepsRow 1) [CallUpdate newGameInputs (3 / 200), CallGenerateWorld 1 20]
   \<and> (\<exists>g'. run (newGame newGameSettings newGameInputs 0)
              [CallUpdate newGameInputs (3 / 200), CallGenerateWorld 1 20] = Some (Inr g')
          \<and> viewportStart g' = 1
          \<and> lookupCell (tiles g') 1 1 = Some (Tile 1 1)
          \<and> playerIsOnTheseTiles (g'\<lparr>player := newPlayer newGameSettings\<rparr>) = Inr [(1, 1)]
          \<and> \<not> instanceofPowerUpTile (Tile 1 1))"
proof -
  let ?g0 = "newGame newGameSettings newGameInputs 0"
  let ?calls = "[CallUpdate newGameInputs (3 / 200), CallGenerateWorld 1 20]"
  have c0: "lookupCell (tiles ?g0) 1 1 = Some (Tile 1 1)"
    by (simp add: lookupCell_newGame)
  have f: "viewportStart ?g0 = 0" "viewportEnd ?g0 = 15"
    by (simp_all add: newGame_fields newGameSettings_def)
  from initial_tile_until_evicted [of newGameSettings newGameInputs 0 ?g0 0 20] c0 f
  have a: "lookupCell (tiles (generateWorld ?g0 0 20)) 1 1 = Some (Tile 1 1)"
    by simp
  from initial_tile_until_evicted [of newGameSettings newGameInputs 0 ?g0 2 20] f
  have b: "lookupCell (tiles (generateWorld ?g0 2 20)) 1 1 = None"
    by simp
  obtain g1 where u: "update ?g0 (3 / 200) = Some (Inr g1)"
    using update_newGame(2) [of 0] by blast
  from initial_tile_until_evicted [of newGameSettings newGameInputs 0 ?g0 _ _ "3 / 200" g1] u c0
  have c1: "lookupCell (tiles g1) 1 1 = Some (Tile 1 1)"
    by blast
  have same: "?g0\<lparr>inputs := newGameInputs\<rparr> = ?g0"
    by (simp add: newGame_def)
  from u have r: "run ?g0 ?calls = Some (Inr (generateWorld g1 1 20))"
    by (simp add: same)
  have k: "list_all (windowKeepsRow 1) ?calls"
    by simp
  from initial_tile_until_evicted [of newGameSettings newGameInputs 0 _ _ _ _ _ ?calls
      "generateWorld g1 1 20"] r k
  have d: "lookupCell (tiles (generateWorld g1 1 20)) 1 1 = Some (Tile 1 1)
      \<and> playerIsOnTheseTiles ((generateWorld g1 1 20)\<lparr>player := newPlayer newGameSettings\<rparr>)
          = Inr [(1, 1)]"
    by blast
  from initial_tile_until_evicted [of newGameSettings newGameInputs 0 _ _ _ _ _ ?calls
      "generateWorld g1 1 20" "Tile 1 1"] r d
  have n: "\<not> instanceofPowerUpTile (Tile 1 1)"
    by blast
  have v: "viewportStart (generateWorld g1 1 20) = 1"
    by (simp add: generateWorld_fields)
  from c0 a b u c1 k r v d n show ?thesis
    by blast
qed

section \<open>Jump requests\<close>




















section \<open>The test of isPointInPath\<close>

text \<open>The loop answers whether the products seen so far, and the ones to come, have one sign.\<close>

lemma seesLoop_iff:
  "mn \<le> 0 \<Longrightarrow> 0 \<le> mx \<Longrightarrow> mn = 0 \<or> mx = 0 \<Longrightarrow>
   seesLoop n u ws mn mx \<longleftrightarrow>
     \<not> ((mn < 0 \<or> (\<exists>w\<in>set ws. dot n (cross u w) < 0))
        \<and> (0 < mx \<or> (\<exists>w\<in>set ws. 0 < dot n (cross u w))))"
proof (induction ws arbitrary: mn mx)
  case Nil
  then show ?case by simp
next
  case (Cons w ws)
  let ?d = "dot n (cross u w)"
  let ?mn = "if ?d < mn then ?d else mn"
  let ?mx = "if ?d < mn then mx else if ?d > mx then ?d else mx"
  have b: "?mn \<le> 0" "0 \<le> ?mx"
    using Cons.prems by auto
  have step: "seesLoop n u (w # ws) mn mx
      = (if ?mx \<noteq> 0 \<and> ?mn \<noteq> 0 then False else seesLoop n u ws ?mn ?mx)"
    by (simp add: Let_def)
  show ?case
  proof (cases "?mx \<noteq> 0 \<and> ?mn \<noteq> 0")
    case True
    with Cons.prems show ?thesis
      unfolding step by (auto split: if_splits)
  next
    case False
    then have "?mn = 0 \<or> ?mx = 0" by blast
    from Cons.IH [OF b this] False Cons.prems show ?thesis
      unfolding step by (auto split: if_splits)
  qed
qed

lemma vectorSees_iff:
  "vectorSeesAllOthersOnTheSameHalfPlane n ws u \<longleftrightarrow>
     (\<forall>w\<in>set ws. 0 \<le> dot n (cross u w)) \<or> (\<forall>w\<in>set ws. dot n (cross u w) \<le> 0)"
  unfolding vectorSeesAllOthersOnTheSameHalfPlane_def
  by (subst seesLoop_iff) (auto simp: not_less)

text \<open>Moving a path keeps its normal, and does not throw.\<close>

lemma substract_add_same: "substract (add a t) (add b t) = substract a b"
  by (simp add: substract_def add_def multiply_def)

lemma newPath_vertices:
  assumes "newPath vs = Inr F"
  shows "vertices F = vs" and "3 \<le> length vs"
    and "normalizeV (cross (substract (vs ! 1) (vs ! 0)) (substract (vs ! 2) (vs ! 1))) = Inr (normal F)"
proof -
  from assms obtain v0 v1 v2 rest where vs: "vs = v0 # v1 # v2 # rest"
    by (cases vs rule: newPath.cases) auto
  from assms show "vertices F = vs" and "3 \<le> length vs"
    and "normalizeV (cross (substract (vs ! 1) (vs ! 0)) (substract (vs ! 2) (vs ! 1))) = Inr (normal F)"
    by (auto simp: vs split: sum.splits)
qed

lemma translate_newPath:
  assumes "newPath vs = Inr F"
  shows "translate F t = Inr \<lparr>vertices = map (\<lambda>u. add u t) vs, normal = normal F\<rparr>"
proof -
  from assms obtain v0 v1 v2 rest where vs: "vs = v0 # v1 # v2 # rest"
    by (cases vs rule: newPath.cases) auto
  from assms show ?thesis
    by (auto simp: translate_def vs substract_add_same split: sum.splits)
qed

lemma isPointInPath_iff:
  assumes "newPath vs = Inr F"
  shows "isPointInPath p F =
    Inr (\<forall>u\<in>set (map (\<lambda>v. add v (multiply p (- 1))) vs).
          (\<exists>w\<in>set (map (\<lambda>v. add v (multiply p (- 1))) vs). dot (normal F) (cross u w) < 0)
          \<and> (\<exists>w\<in>set (map (\<lambda>v. add v (multiply p (- 1))) vs). 0 < dot (normal F) (cross u w)))"
  unfolding isPointInPath_def translate_newPath [OF assms]
  by (simp add: list_ex_iff vectorSees_iff not_le)

section \<open>Products in the plane of a path\<close>

text \<open>
  \<open>dot n (cross u w)\<close> is the product that the loop of \<open>isPointInPath\<close> takes the sign of: it is
  positive when \<open>w\<close> is counterclockwise of \<open>u\<close> about \<open>n\<close>.
\<close>

lemma turn_antisym: "dot n (cross u w) = - dot n (cross w u)"
  by (simp add: dot_def cross_def algebra_simps)

lemma turn_self: "dot n (cross u u) = 0"
  by (simp add: dot_def cross_def algebra_simps)

lemma turn_substract:
  "dot n (cross (substract a p) (substract b p))
     = dot n (cross a b) - dot n (cross a p) - dot n (cross p b)"
  by (simp add: dot_def cross_def substract_def add_def multiply_def algebra_simps)

lemma turn_edge:
  "dot n (cross (substract b a) (substract c a))
     = dot n (cross (substract b p) (substract c p)) - dot n (cross (substract a p) (substract c p))
       + dot n (cross (substract a p) (substract b p))"
  by (simp add: dot_def cross_def substract_def add_def multiply_def algebra_simps)

lemma add_minus_substract: "add v (multiply p (- 1)) = substract v p"
  by (simp add: substract_def)

lemma dot_substract: "dot n (substract a b) = dot n a - dot n b"
  by (simp add: dot_def substract_def add_def multiply_def algebra_simps)

text \<open>
  For four vectors, \<open>[b, c, n] a + [c, a, n] b + [a, b, n] c = [a, b, c] n\<close>, and the triple
  product of three vectors orthogonal to \<open>n\<close> is zero.
\<close>

lemma four_vectors:
  "dot n (cross b c) * vx a + dot n (cross c a) * vx b + dot n (cross a b) * vx c
     = dot a (cross b c) * vx n"
  "dot n (cross b c) * vy a + dot n (cross c a) * vy b + dot n (cross a b) * vy c
     = dot a (cross b c) * vy n"
  "dot n (cross b c) * vz a + dot n (cross c a) * vz b + dot n (cross a b) * vz c
     = dot a (cross b c) * vz n"
  by (simp_all add: dot_def cross_def algebra_simps)

lemma triple_in_plane:
  assumes "dot n a = 0" "dot n b = 0" "dot n c = 0" "dot n n \<noteq> 0"
  shows "dot a (cross b c) = 0"
proof -
  have "dot a (cross b c) * dot n n
      = dot n (cross b c) * dot n a + dot n (cross c a) * dot n b + dot n (cross a b) * dot n c"
    by (simp add: dot_def cross_def algebra_simps)
  with assms show ?thesis by simp
qed

lemma three_in_plane:
  assumes "dot n a = 0" "dot n b = 0" "dot n c = 0" "dot n n \<noteq> 0"
  shows "dot n (cross b c) * vx a + dot n (cross c a) * vx b + dot n (cross a b) * vx c = 0"
    and "dot n (cross b c) * vy a + dot n (cross c a) * vy b + dot n (cross a b) * vy c = 0"
    and "dot n (cross b c) * vz a + dot n (cross c a) * vz b + dot n (cross a b) * vz c = 0"
  using four_vectors [of n b c a] triple_in_plane [OF assms] by simp_all

lemma turn_components:
  "dot n (cross d x) = vx (cross n d) * vx x + vy (cross n d) * vy x + vz (cross n d) * vz x"
  by (simp add: dot_def cross_def algebra_simps)

lemma three_in_plane_turn:
  assumes "dot n a = 0" "dot n b = 0" "dot n c = 0" "dot n n \<noteq> 0"
  shows "dot n (cross b c) * dot n (cross d a) + dot n (cross c a) * dot n (cross d b)
      + dot n (cross a b) * dot n (cross d c) = 0"
proof -
  let ?A = "dot n (cross b c)" and ?B = "dot n (cross c a)" and ?C = "dot n (cross a b)"
  let ?m = "cross n d"
  have "?A * dot n (cross d a) + ?B * dot n (cross d b) + ?C * dot n (cross d c)
      = vx ?m * (?A * vx a + ?B * vx b + ?C * vx c)
        + vy ?m * (?A * vy a + ?B * vy b + ?C * vy c)
        + vz ?m * (?A * vz a + ?B * vz b + ?C * vz c)"
    unfolding turn_components [of n d a] turn_components [of n d b] turn_components [of n d c]
    by (simp add: algebra_simps)
  with three_in_plane [OF assms] show ?thesis by simp
qed

text \<open>Two vectors of the plane that are both parallel to a third, non-zero one are parallel.\<close>

lemma parallel_in_plane:
  assumes "dot n a = 0" "dot n b = 0" "dot n u = 0" "dot n n \<noteq> 0"
    and "u \<noteq> ZERO" "dot n (cross u a) = 0" "dot n (cross u b) = 0"
  shows "dot n (cross a b) = 0"
proof -
  have bu: "dot n (cross b u) = 0"
    using assms(7) turn_antisym [of n b u] by simp
  from three_in_plane [OF assms(1,2,3,4)] bu assms(6)
  have "dot n (cross a b) * vx u = 0" "dot n (cross a b) * vy u = 0" "dot n (cross a b) * vz u = 0"
    by simp_all
  moreover from assms(5) have "vx u \<noteq> 0 \<or> vy u \<noteq> 0 \<or> vz u \<noteq> 0"
    by (cases u) (simp add: ZERO_def)
  ultimately show ?thesis by auto
qed

text \<open>The normal of a path has length 1 and points to the side its first corner turns to.\<close>

lemma normalizeV_unit:
  assumes "normalizeV c = Inr n"
  shows "dot n n = 1" and "0 < dot n c"
proof -
  let ?l = "lengthV c"
  from assms have l: "?l \<noteq> 0" and n: "n = multiply c (1 / ?l)"
    by (auto simp: normalizeV_def Let_def split: if_splits)
  have pos: "0 < ?l"
    using l lengthV_nonneg [of c] by simp
  have sq: "?l * ?l = dot c c"
    using lengthSquared_nonneg [of c] by (simp add: lengthV_def lengthSquared_def)
  have "dot n n = dot c c / (?l * ?l)"
    by (simp add: n dot_def multiply_def add_divide_distrib)
  moreover have "0 < ?l * ?l"
    using pos by simp
  ultimately show "dot n n = 1"
    using sq by simp
  have "dot n c = dot c c / ?l"
    by (simp add: n dot_def multiply_def add_divide_distrib)
  moreover have "0 < dot c c"
    using sq pos mult_pos_pos [of ?l ?l] by simp
  ultimately show "0 < dot n c"
    using pos by simp
qed

section \<open>Weighted sums of points\<close>

lemma Vect_eq_iff: "u = w \<longleftrightarrow> vx u = vx w \<and> vy u = vy w \<and> vz u = vz w"
  by (cases u; cases w) auto

lemma weightedSum_sel:
  "vx (weightedSum c vs) = (\<Sum>i<length vs. c i * vx (vs ! i))"
  "vy (weightedSum c vs) = (\<Sum>i<length vs. c i * vy (vs ! i))"
  "vz (weightedSum c vs) = (\<Sum>i<length vs. c i * vz (vs ! i))"
  by (simp_all add: weightedSum_def)

lemma weightedSum_add:
  "weightedSum (\<lambda>j. c j + d j) vs = add (weightedSum c vs) (weightedSum d vs)"
  by (simp add: weightedSum_def add_def distrib_right sum.distrib)

lemma weightedSum_scale:
  "weightedSum (\<lambda>j. r * c j) vs = multiply (weightedSum c vs) r"
proof -
  have "(\<Sum>i<length vs. r * c i * f (vs ! i)) = (\<Sum>i<length vs. c i * f (vs ! i)) * r"
    for f :: "Vect \<Rightarrow> real"
    by (simp only: sum_distrib_right) (intro sum.cong refl, simp)
  then show ?thesis
    by (simp only: weightedSum_def multiply_def Vect.sel)
qed

lemma sum_single:
  fixes f :: "nat \<Rightarrow> real"
  assumes "k < n"
  shows "(\<Sum>i<n. (if i = k then r else 0) * f i) = r * f k"
proof -
  have "(\<Sum>i<n. (if i = k then r else 0) * f i) = (\<Sum>i\<in>{..<n}. if k = i then r * f i else 0)"
    by (intro sum.cong) auto
  also have "\<dots> = r * f k"
    using assms by (simp add: sum.delta)
  finally show ?thesis .
qed

lemma weightedSum_single:
  "k < length vs \<Longrightarrow> weightedSum (\<lambda>j. if j = k then r else 0) vs = multiply (vs ! k) r"
  by (simp only: weightedSum_def sum_single multiply_def) (simp add: mult.commute)

lemma weightedSum_sum:
  "(\<And>i. i < m \<Longrightarrow> weightedSum (g i) vs = ZERO) \<Longrightarrow>
   weightedSum (\<lambda>j. \<Sum>i<(m::nat). g i j) vs = ZERO"
proof (induction m)
  case 0
  show ?case by (simp add: weightedSum_def ZERO_def)
next
  case (Suc m)
  have "weightedSum (\<lambda>j. (\<Sum>i<m. g i j) + g m j) vs = add ZERO ZERO"
    unfolding weightedSum_add using Suc by simp
  then show ?case by (simp add: add_def ZERO_def)
qed

lemma dot_weightedSum: "dot m (weightedSum c vs) = (\<Sum>i<length vs. c i * dot m (vs ! i))"
proof -
  have "(\<Sum>i<length vs. c i * dot m (vs ! i))
      = (\<Sum>i<length vs. vx m * (c i * vx (vs ! i)) + vy m * (c i * vy (vs ! i))
            + vz m * (c i * vz (vs ! i)))"
    by (intro sum.cong refl) (simp add: dot_def algebra_simps)
  also have "\<dots> = vx m * (\<Sum>i<length vs. c i * vx (vs ! i))
      + vy m * (\<Sum>i<length vs. c i * vy (vs ! i)) + vz m * (\<Sum>i<length vs. c i * vz (vs ! i))"
    by (simp only: sum.distrib sum_distrib_left)
  finally show ?thesis
    by (simp add: dot_def weightedSum_sel)
qed

lemma turn_weightedSum:
  "dot n (cross u (weightedSum c vs)) = (\<Sum>i<length vs. c i * dot n (cross u (vs ! i)))"
proof -
  have "dot n (cross u x) = dot (cross n u) x" for x
    by (simp add: dot_def cross_def algebra_simps)
  then show ?thesis
    by (simp add: dot_weightedSum)
qed

lemma weightedSum_translate:
  assumes "(\<Sum>i<length vs. c i) = 1"
  shows "weightedSum c (map (\<lambda>v. substract v p) vs) = substract (weightedSum c vs) p"
proof -
  have "(\<Sum>i<length vs. c i * (f (vs ! i) - q)) = (\<Sum>i<length vs. c i * f (vs ! i)) - q"
    for f :: "Vect \<Rightarrow> real" and q
  proof -
    have "(\<Sum>i<length vs. c i * (f (vs ! i) - q))
        = (\<Sum>i<length vs. c i * f (vs ! i)) - (\<Sum>i<length vs. c i) * q"
      by (simp add: right_diff_distrib sum_subtractf sum_distrib_right)
    with assms show ?thesis by simp
  qed
  note this [of vx "vx p"] this [of vy "vy p"] this [of vz "vz p"]
  then show ?thesis
    by (simp add: weightedSum_def substract_def add_def multiply_def)
qed

lemma substract_eq_ZERO: "substract a p = ZERO \<longleftrightarrow> a = p"
  by (cases p; cases a) (auto simp: substract_def add_def multiply_def ZERO_def)

lemma strictlyInsideHull_iff:
  "strictlyInsideHull p vs \<longleftrightarrow>
     (\<exists>c. (\<forall>i<length vs. 0 < c i) \<and> (\<Sum>i<length vs. c i) = 1
          \<and> weightedSum c (map (\<lambda>v. substract v p) vs) = ZERO)"
proof
  assume "strictlyInsideHull p vs"
  then obtain c where c: "\<forall>i<length vs. 0 < c i" "(\<Sum>i<length vs. c i) = 1" "weightedSum c vs = p"
    unfolding strictlyInsideHull_def by blast
  from weightedSum_translate [OF c(2), of p] c(3)
  have "weightedSum c (map (\<lambda>v. substract v p) vs) = ZERO"
    by (simp add: substract_eq_ZERO)
  with c(1,2) show "\<exists>c. (\<forall>i<length vs. 0 < c i) \<and> (\<Sum>i<length vs. c i) = 1
          \<and> weightedSum c (map (\<lambda>v. substract v p) vs) = ZERO"
    by blast
next
  assume "\<exists>c. (\<forall>i<length vs. 0 < c i) \<and> (\<Sum>i<length vs. c i) = 1
          \<and> weightedSum c (map (\<lambda>v. substract v p) vs) = ZERO"
  then obtain c where c: "\<forall>i<length vs. 0 < c i" "(\<Sum>i<length vs. c i) = 1"
      "weightedSum c (map (\<lambda>v. substract v p) vs) = ZERO"
    by blast
  from weightedSum_translate [OF c(2), of p] c(3) have "weightedSum c vs = p"
    by (metis substract_eq_ZERO)
  with c(1,2) show "strictlyInsideHull p vs"
    unfolding strictlyInsideHull_def by blast
qed

text \<open>Positive weights can be scaled to sum 1.\<close>

lemma strictlyInsideHull_unscaled:
  assumes "vs \<noteq> []" "\<forall>i<length vs. 0 < c i"
    and "weightedSum c (map (\<lambda>v. substract v p) vs) = ZERO"
  shows "strictlyInsideHull p vs"
proof -
  define s where "s = (\<Sum>i<length vs. c i)"
  define c' where "c' = (\<lambda>j. (1 / s) * c j)"
  have s: "0 < s"
    unfolding s_def using assms(1,2) by (intro sum_pos) auto
  have 1: "\<forall>i<length vs. 0 < c' i"
    using assms(2) s by (simp add: c'_def)
  have "(\<Sum>i<length vs. c' i) = (1 / s) * (\<Sum>i<length vs. c i)"
    unfolding c'_def by (rule sum_distrib_left [symmetric])
  then have 2: "(\<Sum>i<length vs. c' i) = 1"
    using s by (simp add: s_def)
  have "weightedSum c' (map (\<lambda>v. substract v p) vs) = multiply ZERO (1 / s)"
    unfolding c'_def
    using weightedSum_scale [of "1 / s" c "map (\<lambda>v. substract v p) vs"] assms(3)
    by (simp only:)
  then have 3: "weightedSum c' (map (\<lambda>v. substract v p) vs) = ZERO"
    by (simp add: multiply_def ZERO_def)
  show ?thesis
    unfolding strictlyInsideHull_iff using 1 2 3 by blast
qed

section \<open>Points with the vertices on both sides of every vertex\<close>

text \<open>
  When zero is a combination of the vectors \<open>W\<close> of a plane with positive weights, and the
  vectors are not all parallel, every non-zero vector of the plane has vectors of \<open>W\<close> strictly
  on both of its sides.
\<close>

lemma cross_ZERO: "dot n (cross u ZERO) = 0"
  by (simp add: dot_def cross_def ZERO_def)

lemma positive_combination_both_sides:
  assumes n: "dot n n \<noteq> 0" and plane: "\<forall>w\<in>set W. dot n w = 0"
    and pos: "\<forall>i<length W. 0 < c i" and zero: "weightedSum c W = ZERO"
    and u: "dot n u = 0" "u \<noteq> ZERO"
    and spread: "\<exists>a\<in>set W. \<exists>b\<in>set W. dot n (cross a b) \<noteq> 0"
  shows "(\<exists>w\<in>set W. dot n (cross u w) < 0) \<and> (\<exists>w\<in>set W. 0 < dot n (cross u w))"
proof -
  define x where "x = (\<lambda>i. dot n (cross u (W ! i)))"
  have sum0: "(\<Sum>i<length W. c i * x i) = 0"
    using turn_weightedSum [of n u c W] zero by (simp add: x_def cross_ZERO)
  have some: "\<exists>i<length W. x i \<noteq> 0"
  proof (rule ccontr)
    assume "\<not> (\<exists>i<length W. x i \<noteq> 0)"
    then have all0: "\<forall>w\<in>set W. dot n (cross u w) = 0"
      by (auto simp: x_def in_set_conv_nth)
    from spread obtain a b where ab: "a \<in> set W" "b \<in> set W" "dot n (cross a b) \<noteq> 0"
      by blast
    from parallel_in_plane [of n a b u] plane ab(1,2) n u all0 have "dot n (cross a b) = 0"
      by blast
    with ab(3) show False by simp
  qed
  have neg: "\<exists>i<length W. x i < 0"
  proof (rule ccontr)
    assume "\<not> (\<exists>i<length W. x i < 0)"
    then have "\<forall>i<length W. 0 \<le> x i"
      by (meson not_less)
    with pos have nonneg: "\<forall>i\<in>{..<length W}. 0 \<le> c i * x i"
      by (simp add: zero_le_mult_iff less_imp_le)
    from sum0 have z: "\<forall>i\<in>{..<length W}. c i * x i = 0"
      using sum_nonneg_eq_0_iff [of "{..<length W}" "\<lambda>i. c i * x i"] nonneg by simp
    have "x i = 0" if "i < length W" for i
    proof -
      from pos that have "0 < c i" by blast
      moreover from z that have "c i * x i = 0" by simp
      ultimately show ?thesis by simp
    qed
    then have "\<forall>i<length W. x i = 0"
      by blast
    with some show False by blast
  qed
  have posi: "\<exists>i<length W. 0 < x i"
  proof (rule ccontr)
    assume "\<not> (\<exists>i<length W. 0 < x i)"
    then have "\<forall>i<length W. x i \<le> 0"
      by (meson not_less)
    with pos have nonneg: "\<forall>i\<in>{..<length W}. 0 \<le> c i * (- x i)"
      by (simp add: mult_le_0_iff less_imp_le)
    have "(\<Sum>i<length W. c i * (- x i)) = - (\<Sum>i<length W. c i * x i)"
      by (simp add: sum_negf)
    with sum0 have "(\<Sum>i<length W. c i * (- x i)) = 0"
      by simp
    then have z: "\<forall>i\<in>{..<length W}. c i * (- x i) = 0"
      using sum_nonneg_eq_0_iff [of "{..<length W}" "\<lambda>i. c i * (- x i)"] nonneg by simp
    have "x i = 0" if "i < length W" for i
    proof -
      from pos that have "0 < c i" by blast
      moreover from z that have "c i * (- x i) = 0" by simp
      ultimately show ?thesis by simp
    qed
    then have "\<forall>i<length W. x i = 0"
      by blast
    with some show False by blast
  qed
  from neg posi show ?thesis
    unfolding x_def by (metis nth_mem)
qed

text \<open>
  In an open half-plane of the plane, being clockwise of, or aligned with, is transitive; so
  a non-empty list of vectors there has a vector that no other is counterclockwise of.
\<close>

lemma turn_trans:
  assumes n: "dot n n \<noteq> 0" and "dot n x = 0" "dot n y = 0" "dot n z = 0"
    and "0 < dot n (cross a x)" "0 < dot n (cross a y)" "0 < dot n (cross a z)"
    and xy: "dot n (cross x y) \<le> 0" and yz: "dot n (cross y z) \<le> 0"
  shows "dot n (cross x z) \<le> 0"
proof -
  from three_in_plane_turn [OF assms(2,3,4) n, of a]
  have eq: "dot n (cross y z) * dot n (cross a x) + dot n (cross z x) * dot n (cross a y)
      + dot n (cross x y) * dot n (cross a z) = 0" .
  have 1: "dot n (cross y z) * dot n (cross a x) \<le> 0"
    using yz assms(5) by (simp add: mult_nonpos_nonneg)
  have 2: "dot n (cross x y) * dot n (cross a z) \<le> 0"
    using xy assms(7) by (simp add: mult_nonpos_nonneg)
  from eq 1 2 have "0 \<le> dot n (cross z x) * dot n (cross a y)"
    by linarith
  with assms(6) have "0 \<le> dot n (cross z x)"
    by (simp add: zero_le_mult_iff)
  then show ?thesis
    using turn_antisym [of n x z] by simp
qed

lemma furthest_counterclockwise:
  assumes n: "dot n n \<noteq> 0"
  shows "L \<noteq> [] \<Longrightarrow> \<forall>w\<in>set L. dot n w = 0 \<and> 0 < dot n (cross a w) \<Longrightarrow>
    \<exists>b\<in>set L. \<forall>w\<in>set L. dot n (cross b w) \<le> 0"
proof (induction L)
  case Nil
  then show ?case by simp
next
  case (Cons x L)
  show ?case
  proof (cases "L = []")
    case True
    then show ?thesis by (simp add: turn_self)
  next
    case False
    with Cons obtain b where b: "b \<in> set L" "\<forall>w\<in>set L. dot n (cross b w) \<le> 0"
      by auto
    show ?thesis
    proof (cases "dot n (cross x b) \<le> 0")
      case True
      have "dot n (cross x w) \<le> 0" if "w \<in> set L" for w
        using turn_trans [OF n, of x b w a] Cons.prems(2) b that True by auto
      then show ?thesis
        by (auto simp: turn_self)
    next
      case False
      then have "dot n (cross b x) \<le> 0"
        using turn_antisym [of n b x] by simp
      with b show ?thesis by auto
    qed
  qed
qed

lemma triangle_around:
  assumes n: "dot n n \<noteq> 0" and plane: "\<forall>w\<in>set W. dot n w = 0"
    and both: "\<forall>u\<in>set W. (\<exists>w\<in>set W. dot n (cross u w) < 0) \<and> (\<exists>w\<in>set W. 0 < dot n (cross u w))"
    and a: "a \<in> set W"
  shows "\<exists>b\<in>set W. \<exists>c\<in>set W.
     0 < dot n (cross a b) \<and> 0 < dot n (cross b c) \<and> 0 \<le> dot n (cross c a)"
proof -
  let ?L = "filter (\<lambda>w. 0 < dot n (cross a w)) W"
  from both a have "?L \<noteq> []"
    by (auto simp: filter_empty_conv)
  moreover have "\<forall>w\<in>set ?L. dot n w = 0 \<and> 0 < dot n (cross a w)"
    using plane by auto
  ultimately obtain b where b: "b \<in> set ?L" "\<forall>w\<in>set ?L. dot n (cross b w) \<le> 0"
    using furthest_counterclockwise [OF n, of ?L a] by blast
  then have bW: "b \<in> set W" "0 < dot n (cross a b)"
    by auto
  with both obtain c where c: "c \<in> set W" "0 < dot n (cross b c)"
    by blast
  with b(2) have "\<not> 0 < dot n (cross a c)"
    by auto
  then have "0 \<le> dot n (cross c a)"
    using turn_antisym [of n c a] by simp
  with bW c show ?thesis by blast
qed

text \<open>So zero is a combination of the vectors in which a chosen one has a positive weight.\<close>

lemma weights_at:
  assumes n: "dot n n \<noteq> 0" and plane: "\<forall>w\<in>set W. dot n w = 0"
    and both: "\<forall>u\<in>set W. (\<exists>w\<in>set W. dot n (cross u w) < 0) \<and> (\<exists>w\<in>set W. 0 < dot n (cross u w))"
    and i: "i < length W"
  shows "\<exists>g. (\<forall>j. 0 \<le> g j) \<and> 0 < g i \<and> weightedSum g W = ZERO"
proof -
  let ?a = "W ! i"
  from triangle_around [OF n plane both nth_mem [OF i]]
  obtain b c where bc: "b \<in> set W" "c \<in> set W" "0 < dot n (cross ?a b)"
      "0 < dot n (cross b c)" "0 \<le> dot n (cross c ?a)"
    by blast
  then obtain jb jc where j: "jb < length W" "W ! jb = b" "jc < length W" "W ! jc = c"
    by (auto simp: in_set_conv_nth)
  define A where "A = dot n (cross b c)"
  define B where "B = dot n (cross c ?a)"
  define C where "C = dot n (cross ?a b)"
  define g where "g = (\<lambda>j. (if j = i then A else 0) + ((if j = jb then B else 0)
      + (if j = jc then C else 0)))"
  have ABC: "0 < A" "0 \<le> B" "0 < C"
    using bc by (simp_all add: A_def B_def C_def)
  have "weightedSum g W = add (multiply ?a A) (add (multiply b B) (multiply c C))"
    unfolding g_def weightedSum_add
    by (simp only: weightedSum_single [OF i] weightedSum_single [OF j(1)]
        weightedSum_single [OF j(3)] j)
  also have "\<dots> = ZERO"
    using three_in_plane [of n ?a b c] plane nth_mem [OF i] bc(1,2) n
    by (simp add: add_def multiply_def ZERO_def A_def B_def C_def mult.commute)
  finally have "weightedSum g W = ZERO" .
  moreover have "\<forall>j. 0 \<le> g j"
    using ABC by (simp add: g_def)
  moreover have "0 < g i"
    using ABC by (simp add: g_def add_pos_nonneg)
  ultimately show ?thesis by blast
qed

lemma both_sides_positive_combination:
  assumes n: "dot n n \<noteq> 0" and plane: "\<forall>w\<in>set W. dot n w = 0"
    and both: "\<forall>u\<in>set W. (\<exists>w\<in>set W. dot n (cross u w) < 0) \<and> (\<exists>w\<in>set W. 0 < dot n (cross u w))"
  shows "\<exists>c. (\<forall>i<length W. 0 < c i) \<and> weightedSum c W = ZERO"
proof -
  have "\<forall>i\<in>{..<length W}. \<exists>g. (\<forall>j. 0 \<le> g j) \<and> 0 < g i \<and> weightedSum g W = ZERO"
    using weights_at [OF n plane both] by simp
  then obtain G where G: "\<forall>i\<in>{..<length W}. (\<forall>j. 0 \<le> G i j) \<and> 0 < G i i \<and> weightedSum (G i) W = ZERO"
    by (rule bchoice [THEN exE]) blast
  define c where "c = (\<lambda>j. \<Sum>i<length W. G i j)"
  have "0 < c j" if "j < length W" for j
    unfolding c_def using G that
    by (intro sum_pos2 [of _ j]) auto
  moreover have "weightedSum c W = ZERO"
    unfolding c_def using G by (intro weightedSum_sum) simp
  ultimately show ?thesis by blast
qed

section \<open>isPointInPath and the convex hull\<close>

lemma corner_expand:
  "dot n (cross (substract v1 v0) (substract v2 v1))
     = dot n (cross (substract v1 p) (substract v2 p))
       - dot n (cross (substract v0 p) (substract v2 p))
       + dot n (cross (substract v0 p) (substract v1 p))"
  by (simp add: dot_def cross_def substract_def add_def multiply_def algebra_simps)

lemma turn_from_vertex:
  "dot n (cross (substract b a) (substract c a))
     = dot n (cross (substract b p) (substract c p))" if "a = p"
  using that by simp

lemma turn_on_edge:
  assumes "p = add a (multiply (substract b a) t)"
  shows "dot n (cross (substract a p) (substract c p))
     = - t * dot n (cross (substract b a) (substract c a))"
  unfolding assms
  by (simp add: dot_def cross_def substract_def add_def multiply_def algebra_simps)

lemma edges_next: "v \<in> set vs \<Longrightarrow> \<exists>b. (v, b) \<in> set (edges vs)"
  unfolding edges_def using in_set_impl_in_set_zip1 [of vs "rotate1 vs" v] by auto

lemma edges_set: "(a, b) \<in> set (edges vs) \<Longrightarrow> a \<in> set vs \<and> b \<in> set vs"
  unfolding edges_def by (auto dest: set_zip_leftD set_zip_rightD)

text \<open>The facts about a path that the constructor has built, and a point of its plane.\<close>

lemma path_facts:
  assumes F: "newPath vs = Inr F" and planar: "planar F" and p: "onPlane p F"
  shows "dot (normal F) (normal F) \<noteq> 0"
    and "\<forall>w\<in>set (map (\<lambda>v. substract v p) vs). dot (normal F) w = 0"
    and "\<exists>a\<in>set (map (\<lambda>v. substract v p) vs). \<exists>b\<in>set (map (\<lambda>v. substract v p) vs).
           dot (normal F) (cross a b) \<noteq> 0"
    and "vs \<noteq> []"
proof -
  let ?n = "normal F"
  note v = newPath_vertices [OF F]
  from normalizeV_unit [OF v(3)] show "dot ?n ?n \<noteq> 0"
    by simp
  from v(2) show "vs \<noteq> []" by auto
  show "\<forall>w\<in>set (map (\<lambda>v. substract v p) vs). dot ?n w = 0"
    using planar p by (auto simp: planar_def onPlane_def v(1) dot_substract)
  let ?w = "\<lambda>i. substract (vs ! i) p"
  have mem: "?w 0 \<in> set (map (\<lambda>v. substract v p) vs)" "?w 1 \<in> set (map (\<lambda>v. substract v p) vs)"
    "?w 2 \<in> set (map (\<lambda>v. substract v p) vs)"
    using v(2) by (auto intro!: imageI nth_mem)
  from normalizeV_unit(2) [OF v(3)]
  have "dot ?n (cross (?w 1) (?w 2)) - dot ?n (cross (?w 0) (?w 2)) + dot ?n (cross (?w 0) (?w 1)) \<noteq> 0"
    unfolding corner_expand [of ?n "vs ! 1" "vs ! 0" "vs ! 2" p] by simp
  then have "dot ?n (cross (?w 1) (?w 2)) \<noteq> 0 \<or> dot ?n (cross (?w 0) (?w 2)) \<noteq> 0
      \<or> dot ?n (cross (?w 0) (?w 1)) \<noteq> 0"
    by auto
  with mem show "\<exists>a\<in>set (map (\<lambda>v. substract v p) vs). \<exists>b\<in>set (map (\<lambda>v. substract v p) vs).
           dot ?n (cross a b) \<noteq> 0"
    by blast
qed

lemma isPointInPath_substract:
  assumes "newPath vs = Inr F"
  shows "isPointInPath p F =
    Inr (\<forall>u\<in>set (map (\<lambda>v. substract v p) vs).
          (\<exists>w\<in>set (map (\<lambda>v. substract v p) vs). dot (normal F) (cross u w) < 0)
          \<and> (\<exists>w\<in>set (map (\<lambda>v. substract v p) vs). 0 < dot (normal F) (cross u w)))"
  using isPointInPath_iff [OF assms, of p] by (simp only: add_minus_substract)

text \<open>Going around the vertices from one of them, an edge leaves it for another point.\<close>

lemma edges_nth:
  assumes "i < length vs"
  shows "(vs ! i, vs ! (Suc i mod length vs)) \<in> set (edges vs)"
  unfolding edges_def in_set_zip using assms by (auto simp: nth_rotate1 intro!: exI [of _ i])

lemma closed_all_equal:
  assumes i0: "i0 < length vs" "vs ! i0 = v"
    and closed: "\<forall>i<length vs. vs ! i = v \<longrightarrow> vs ! (Suc i mod length vs) = v"
    and j: "j < length vs"
  shows "vs ! j = v"
proof -
  have walk: "vs ! ((i0 + k) mod length vs) = v" for k
  proof (induction k)
    case 0
    with i0 show ?case by simp
  next
    case (Suc k)
    have "0 < length vs"
      using i0(1) by linarith
    then have "(i0 + k) mod length vs < length vs"
      by (rule mod_less_divisor)
    with closed Suc have "vs ! (Suc ((i0 + k) mod length vs) mod length vs) = v"
      by blast
    then show ?case
      by (simp add: mod_Suc_eq)
  qed
  have "(i0 + (j + length vs - i0)) mod length vs = j"
    using i0(1) j by simp
  with walk [of "j + length vs - i0"] show ?thesis
    by simp
qed

lemma edges_leave:
  assumes p: "p \<in> set vs" and other: "\<exists>x\<in>set vs. x \<noteq> p"
  shows "\<exists>b. (p, b) \<in> set (edges vs) \<and> b \<noteq> p"
proof (rule ccontr)
  assume no: "\<not> (\<exists>b. (p, b) \<in> set (edges vs) \<and> b \<noteq> p)"
  from p obtain i0 where i0: "i0 < length vs" "vs ! i0 = p"
    by (auto simp: in_set_conv_nth)
  have closed: "\<forall>i<length vs. vs ! i = p \<longrightarrow> vs ! (Suc i mod length vs) = p"
    using no edges_nth [of _ vs] by metis
  from other obtain j where "j < length vs" "vs ! j \<noteq> p"
    by (auto simp: in_set_conv_nth)
  with closed_all_equal [OF i0 closed] show False
    by blast
qed

text \<open>A vertex of a convex path is not strictly inside the hull of the vertices.\<close>

lemma vertex_not_inside:
  assumes F: "newPath vs = Inr F" and planar: "planar F" and convex: "convexWound F"
    and p: "p \<in> set vs"
  shows "\<not> strictlyInsideHull p vs"
proof
  assume "strictlyInsideHull p vs"
  then obtain c where c: "\<forall>i<length vs. 0 < c i"
      "weightedSum c (map (\<lambda>v. substract v p) vs) = ZERO"
    unfolding strictlyInsideHull_iff by blast
  let ?n = "normal F" and ?W = "map (\<lambda>v. substract v p) vs"
  note v = newPath_vertices [OF F]
  have onp: "onPlane p F"
    using planar p by (simp add: planar_def onPlane_def v(1))
  note facts = path_facts [OF F planar onp]
  have "\<exists>x\<in>set vs. x \<noteq> p"
  proof (rule ccontr)
    assume "\<not> (\<exists>x\<in>set vs. x \<noteq> p)"
    then have "\<forall>w\<in>set ?W. w = ZERO"
      by (auto simp: substract_eq_ZERO)
    then have "\<forall>a\<in>set ?W. \<forall>b\<in>set ?W. dot ?n (cross a b) = 0"
      by (simp add: cross_ZERO)
    with facts(3) show False by blast
  qed
  from edges_leave [OF p this] obtain b where e: "(p, b) \<in> set (edges vs)" and b: "b \<noteq> p"
    by blast
  with convex have left: "\<forall>x\<in>set vs. 0 \<le> dot ?n (cross (substract b p) (substract x p))"
    by (auto simp: convexWound_def v(1))
  from edges_set [OF e] have bW: "substract b p \<in> set ?W"
    by simp
  with facts(2) have "dot ?n (substract b p) = 0"
    by blast
  moreover have "substract b p \<noteq> ZERO"
    using b by (simp add: substract_eq_ZERO)
  ultimately have "\<exists>w\<in>set ?W. dot ?n (cross (substract b p) w) < 0"
    using positive_combination_both_sides [OF facts(1,2) _ c(2) _ _ facts(3), of "substract b p"] c(1)
    by simp
  with left show False
    by auto
qed

text \<open>
  C4, amended. For a path \<open>F\<close> that the constructor has built from the vertices \<open>vs\<close>, planar
  and convex, with its edges wound counterclockwise about its normal, and for every point \<open>p\<close>
  of the plane of \<open>F\<close>: \<open>isPointInPath(p, F)\<close> returns true exactly when \<open>p\<close> is strictly inside
  the convex hull of the vertices. In particular it returns false for a vertex and for a
  point on an edge.
\<close>

theorem isPointInPath_strictly_inside:
  assumes F: "newPath vs = Inr F" and planar: "planar F" and convex: "convexWound F"
    and p: "onPlane p F"
  shows "isPointInPath p F = Inr (strictlyInsideHull p (vertices F))
    \<and> (p \<in> set (vertices F) \<or> onEdge p F \<longrightarrow> isPointInPath p F = Inr False)"
proof -
  let ?n = "normal F" and ?W = "map (\<lambda>v. substract v p) vs"
  let ?both = "\<forall>u\<in>set ?W. (\<exists>w\<in>set ?W. dot ?n (cross u w) < 0)
      \<and> (\<exists>w\<in>set ?W. 0 < dot ?n (cross u w))"
  note v = newPath_vertices [OF F]
  note facts = path_facts [OF F planar p]
  note code = isPointInPath_substract [OF F, of p]
  have 1: "strictlyInsideHull p vs" if ?both
  proof -
    from both_sides_positive_combination [OF facts(1,2) that]
    obtain c where "\<forall>i<length ?W. 0 < c i" "weightedSum c ?W = ZERO"
      by blast
    then show ?thesis
      using strictlyInsideHull_unscaled [OF facts(4), of c p] by simp
  qed
  have 2: ?both if inside: "strictlyInsideHull p vs"
  proof
    fix u assume u: "u \<in> set ?W"
    from inside obtain c where c: "\<forall>i<length vs. 0 < c i" "weightedSum c ?W = ZERO"
      unfolding strictlyInsideHull_iff by blast
    from inside vertex_not_inside [OF F planar convex] have "p \<notin> set vs"
      by blast
    with u have "u \<noteq> ZERO"
      by (auto simp: substract_eq_ZERO)
    moreover from u facts(2) have "dot ?n u = 0"
      by blast
    ultimately show "(\<exists>w\<in>set ?W. dot ?n (cross u w) < 0) \<and> (\<exists>w\<in>set ?W. 0 < dot ?n (cross u w))"
      using positive_combination_both_sides [OF facts(1,2) _ c(2) _ _ facts(3), of u] c(1)
      by simp
  qed
  from 1 2 have main: "isPointInPath p F = Inr (strictlyInsideHull p (vertices F))"
    unfolding code v(1) by blast
  have 3: "\<not> ?both" if "p \<in> set vs"
  proof -
    from that have "ZERO \<in> set ?W"
      using substract_eq_ZERO [of p p] by force
    moreover have "dot ?n (cross ZERO w) = 0" for w
      by (simp add: dot_def cross_def ZERO_def)
    ultimately show ?thesis
      by (metis less_irrefl)
  qed
  have 4: "\<not> ?both" if "onEdge p F"
  proof -
    from that obtain a b t where e: "(a, b) \<in> set (edges vs)" and t: "0 \<le> t"
      and pe: "p = add a (multiply (substract b a) t)"
      by (auto simp: onEdge_def v(1))
    from convex e have left: "\<forall>c\<in>set vs. 0 \<le> dot ?n (cross (substract b a) (substract c a))"
      by (auto simp: convexWound_def v(1))
    have "dot ?n (cross (substract a p) w) \<le> 0" if "w \<in> set ?W" for w
    proof -
      from that obtain c where c: "c \<in> set vs" "w = substract c p"
        by auto
      from left c(1) t show ?thesis
        unfolding c(2) turn_on_edge [OF pe] by (simp add: mult_le_0_iff)
    qed
    moreover from edges_set [OF e] have "substract a p \<in> set ?W"
      by simp
    ultimately show ?thesis
      by (metis not_less)
  qed
  from 3 4 have "p \<in> set (vertices F) \<or> onEdge p F \<longrightarrow> isPointInPath p F = Inr False"
    unfolding code v(1) by blast
  with main show ?thesis by blast
qed

text \<open>The unit square of the ground, wound counterclockwise about the upward normal.\<close>

lemma square_path:
  "newPath [Vect 0 0 0, Vect 1 0 0, Vect 1 1 0, Vect 0 1 0]
     = Inr \<lparr>vertices = [Vect 0 0 0, Vect 1 0 0, Vect 1 1 0, Vect 0 1 0], normal = Vect 0 0 1\<rparr>"
  by (simp add: normalizeV_def lengthV_def lengthSquared_def dot_def cross_def substract_def add_def
      multiply_def)

lemma square_planar:
  "planar \<lparr>vertices = [Vect 0 0 0, Vect 1 0 0, Vect 1 1 0, Vect 0 1 0], normal = Vect 0 0 1\<rparr>"
  by (simp add: planar_def dot_def substract_def add_def multiply_def)

lemma square_convex:
  "convexWound \<lparr>vertices = [Vect 0 0 0, Vect 1 0 0, Vect 1 1 0, Vect 0 1 0], normal = Vect 0 0 1\<rparr>"
  by (simp add: convexWound_def edges_def dot_def cross_def substract_def add_def multiply_def)

lemma square_inside:
  "isPointInPath (Vect (1 / 2) (1 / 2) z)
     \<lparr>vertices = [Vect 0 0 0, Vect 1 0 0, Vect 1 1 0, Vect 0 1 0], normal = Vect 0 0 1\<rparr> = Inr True"
  unfolding isPointInPath_substract [OF square_path]
  by (simp add: dot_def cross_def substract_def add_def multiply_def)

text \<open>
  C4, as stated, fails. The test looks at the point through the normal of the path only, so a
  point above the middle of the unit square is classified as inside, although it is not in
  the plane of the square, let alone strictly inside the hull of its vertices.
\<close>

theorem isPointInPath_off_plane:
  "newPath [Vect 0 0 0, Vect 1 0 0, Vect 1 1 0, Vect 0 1 0]
     = Inr \<lparr>vertices = [Vect 0 0 0, Vect 1 0 0, Vect 1 1 0, Vect 0 1 0], normal = Vect 0 0 1\<rparr>
   \<and> planar \<lparr>vertices = [Vect 0 0 0, Vect 1 0 0, Vect 1 1 0, Vect 0 1 0], normal = Vect 0 0 1\<rparr>
   \<and> convexWound \<lparr>vertices = [Vect 0 0 0, Vect 1 0 0, Vect 1 1 0, Vect 0 1 0], normal = Vect 0 0 1\<rparr>
   \<and> isPointInPath (Vect (1 / 2) (1 / 2) 1)
       \<lparr>vertices = [Vect 0 0 0, Vect 1 0 0, Vect 1 1 0, Vect 0 1 0], normal = Vect 0 0 1\<rparr> = Inr True
   \<and> \<not> strictlyInsideHull (Vect (1 / 2) (1 / 2) 1) [Vect 0 0 0, Vect 1 0 0, Vect 1 1 0, Vect 0 1 0]"
proof -
  let ?sq = "[Vect 0 0 0, Vect 1 0 0, Vect 1 1 0, Vect 0 1 0]"
  have "\<not> strictlyInsideHull (Vect (1 / 2) (1 / 2) 1) ?sq"
  proof
    assume "strictlyInsideHull (Vect (1 / 2) (1 / 2) 1) ?sq"
    then obtain c where "weightedSum c ?sq = Vect (1 / 2) (1 / 2) 1"
      unfolding strictlyInsideHull_def by blast
    then have "vz (weightedSum c ?sq) = 1"
      by simp
    moreover have "\<forall>i<length ?sq. vz (?sq ! i) = 0"
      by (simp add: nth_Cons split: nat.split)
    then have "vz (weightedSum c ?sq) = 0"
      unfolding weightedSum_sel by (intro sum.neutral) simp
    ultimately show False
      by simp
  qed
  with square_path square_planar square_convex square_inside [of 1] show ?thesis
    by blast
qed

theorem isPointInPath_strictly_inside_witness:
  "newPath [Vect 0 0 0, Vect 1 0 0, Vect 1 1 0, Vect 0 1 0]
     = Inr \<lparr>vertices = [Vect 0 0 0, Vect 1 0 0, Vect 1 1 0, Vect 0 1 0], normal = Vect 0 0 1\<rparr>
   \<and> planar \<lparr>vertices = [Vect 0 0 0, Vect 1 0 0, Vect 1 1 0, Vect 0 1 0], normal = Vect 0 0 1\<rparr>
   \<and> convexWound \<lparr>vertices = [Vect 0 0 0, Vect 1 0 0, Vect 1 1 0, Vect 0 1 0], normal = Vect 0 0 1\<rparr>
   \<and> onPlane (Vect (1 / 2) (1 / 2) 0)
       \<lparr>vertices = [Vect 0 0 0, Vect 1 0 0, Vect 1 1 0, Vect 0 1 0], normal = Vect 0 0 1\<rparr>
   \<and> isPointInPath (Vect (1 / 2) (1 / 2) 0)
       \<lparr>vertices = [Vect 0 0 0, Vect 1 0 0, Vect 1 1 0, Vect 0 1 0], normal = Vect 0 0 1\<rparr> = Inr True
   \<and> strictlyInsideHull (Vect (1 / 2) (1 / 2) 0) [Vect 0 0 0, Vect 1 0 0, Vect 1 1 0, Vect 0 1 0]
   \<and> onPlane (Vect 1 (1 / 2) 0)
       \<lparr>vertices = [Vect 0 0 0, Vect 1 0 0, Vect 1 1 0, Vect 0 1 0], normal = Vect 0 0 1\<rparr>
   \<and> onEdge (Vect 1 (1 / 2) 0)
       \<lparr>vertices = [Vect 0 0 0, Vect 1 0 0, Vect 1 1 0, Vect 0 1 0], normal = Vect 0 0 1\<rparr>
   \<and> isPointInPath (Vect 1 (1 / 2) 0)
       \<lparr>vertices = [Vect 0 0 0, Vect 1 0 0, Vect 1 1 0, Vect 0 1 0], normal = Vect 0 0 1\<rparr> = Inr False
   \<and> onPlane (Vect 1 1 0)
       \<lparr>vertices = [Vect 0 0 0, Vect 1 0 0, Vect 1 1 0, Vect 0 1 0], normal = Vect 0 0 1\<rparr>
   \<and> isPointInPath (Vect 1 1 0)
       \<lparr>vertices = [Vect 0 0 0, Vect 1 0 0, Vect 1 1 0, Vect 0 1 0], normal = Vect 0 0 1\<rparr> = Inr False"
proof -
  let ?sq = "[Vect 0 0 0, Vect 1 0 0, Vect 1 1 0, Vect 0 1 0]"
  let ?F = "\<lparr>vertices = ?sq, normal = Vect 0 0 1\<rparr>"
  have p: "onPlane (Vect (1 / 2) (1 / 2) 0) ?F"
    by (simp add: onPlane_def dot_def substract_def add_def multiply_def)
  have q: "onPlane (Vect 1 (1 / 2) 0) ?F"
    by (simp add: onPlane_def dot_def substract_def add_def multiply_def)
  have r: "onPlane (Vect 1 1 0) ?F"
    by (simp add: onPlane_def dot_def substract_def add_def multiply_def)
  have "Vect 1 (1 / 2) 0 = add (Vect 1 0 0) (multiply (substract (Vect 1 1 0) (Vect 1 0 0)) (1 / 2))"
    by (simp add: add_def multiply_def substract_def)
  moreover have "(Vect 1 0 0, Vect 1 1 0) \<in> set (edges ?sq)"
    by (simp add: edges_def)
  ultimately have e: "onEdge (Vect 1 (1 / 2) 0) ?F"
    unfolding onEdge_def
    by (intro bexI [of _ "(Vect 1 0 0, Vect 1 1 0)"]) (auto intro!: exI [of _ "1 / 2"])
  from isPointInPath_strictly_inside [OF square_path square_planar square_convex p]
    square_inside [of 0]
  have A: "strictlyInsideHull (Vect (1 / 2) (1 / 2) 0) ?sq"
    by simp
  from isPointInPath_strictly_inside [OF square_path square_planar square_convex q] e
  have B: "isPointInPath (Vect 1 (1 / 2) 0) ?F = Inr False"
    by blast
  have v: "Vect 1 1 0 \<in> set (vertices ?F)"
    by simp
  from isPointInPath_strictly_inside [OF square_path square_planar square_convex r] v
  have C: "isPointInPath (Vect 1 1 0) ?F = Inr False"
    by blast
  from square_path square_planar square_convex p square_inside [of 0] A q e B r C
  show ?thesis
    by blast
qed

section \<open>The closest event\<close>






lemma dtOrientation_zero: "\<not> misaligned g dir \<Longrightarrow> dtOrientation (nextEvents g dir e) = 0"
  by (auto simp: nextEvents_def Let_def misaligned_def)




section \<open>The turn of the player through a call of update\<close>






















section \<open>One call of update in a steady state\<close>







section \<open>The number of calls in a chain\<close>







section \<open>update returns\<close>







section \<open>The states of a run are steady\<close>








end
